theory Spec2Isabelle
  imports Main
begin

section \<open>JavaScript strings\<close>

text \<open>
  A JavaScript string is a sequence of UTF-16 code units.  The model uses \<^typ>\<open>string\<close>,
  so it covers the documents whose code units are below 256 (ASCII and Latin-1); on these
  the character predicates below are the ones of ECMAScript.
\<close>

abbreviation NL :: char where "NL \<equiv> CHR 0x0A"

text \<open>White space and line terminators: what \<open>\s\<close> matches and what \<open>trim\<close> removes.\<close>

definition isWhiteSpace :: "char \<Rightarrow> bool" where
  "isWhiteSpace c =
     (c = CHR 0x09 \<or> c = CHR 0x0A \<or> c = CHR 0x0B \<or> c = CHR 0x0C \<or> c = CHR 0x0D
      \<or> c = CHR 0x20 \<or> c = CHR 0xA0)"

definition in_range :: "char \<Rightarrow> char \<Rightarrow> char \<Rightarrow> bool" where
  "in_range lo hi c = ((of_char lo :: nat) \<le> of_char c \<and> (of_char c :: nat) \<le> of_char hi)"

text \<open>What \<open>\w\<close> matches: \<open>[A-Za-z0-9_]\<close>.\<close>

definition isWordChar :: "char \<Rightarrow> bool" where
  "isWordChar c =
     (in_range CHR ''a'' CHR ''z'' c \<or> in_range CHR ''A'' CHR ''Z'' c
      \<or> in_range CHR ''0'' CHR ''9'' c \<or> c = CHR ''_'')"

definition trimStart :: "string \<Rightarrow> string" where
  "trimStart s = dropWhile isWhiteSpace s"

definition trim :: "string \<Rightarrow> string" where
  "trim s = rev (trimStart (rev (trimStart s)))"

definition lowerChar :: "char \<Rightarrow> char" where
  "lowerChar c =
     (if in_range CHR ''A'' CHR ''Z'' c
         \<or> (in_range CHR 0xC0 CHR 0xDE c \<and> c \<noteq> CHR 0xD7)
      then char_of (of_char c + (32 :: nat)) else c)"

definition toLowerCase :: "string \<Rightarrow> string" where
  "toLowerCase s = map lowerChar s"

text \<open>The canonical form of a code unit under the \<open>i\<close> flag (its upper case).\<close>

definition canonChar :: "char \<Rightarrow> char" where
  "canonChar c =
     (if in_range CHR ''a'' CHR ''z'' c
         \<or> (in_range CHR 0xE0 CHR 0xFE c \<and> c \<noteq> CHR 0xF7)
      then char_of (of_char c - (32 :: nat)) else c)"

fun startsWith :: "string \<Rightarrow> string \<Rightarrow> bool" where
  "startsWith s [] = True"
| "startsWith [] (p # ps) = False"
| "startsWith (c # cs) (p # ps) = (c = p \<and> startsWith cs ps)"

text \<open>\<open>s.split(d)\<close> for a one-character separator: never empty, \<open>''.split(d) = ['']\<close>.\<close>

fun split_char :: "char \<Rightarrow> string \<Rightarrow> string list" where
  "split_char d [] = [[]]"
| "split_char d (c # cs) =
     (if c = d then [] # split_char d cs
      else (let r = split_char d cs in (c # hd r) # tl r))"

fun join :: "string \<Rightarrow> string list \<Rightarrow> string" where
  "join sep [] = []"
| "join sep [x] = x"
| "join sep (x # y # r) = x @ sep @ join sep (y # r)"

text \<open>The decimal rendering of a non-negative integer, as template literals produce it.\<close>

function show_nat :: "nat \<Rightarrow> string" where
  "show_nat n =
     (if n < 10 then [char_of (48 + n)]
      else show_nat (n div 10) @ [char_of (48 + n mod 10)])"
  by pat_completeness auto
termination
  by (relation "measure id") auto

declare show_nat.simps [simp del]

section \<open>Regular expressions\<close>

text \<open>
  The regular expressions of the source are written as abstract syntax and run by a
  backtracking matcher that lists the ways a pattern can match in the order in which
  the ECMAScript matcher tries them; the first element is the match that \<open>exec\<close> reports.
  The syntax covers what the source uses: literal characters, \<open>.\<close>, \<open>\s\<close>, \<open>\w\<close>,
  character classes, the quantifiers \<open>*\<close>, \<open>*?\<close>, \<open>+\<close>, \<open>?\<close> on a single character,
  capturing groups that are not nested, back references and \<open>$\<close>.  A leading \<open>^\<close>
  (without the \<open>m\<close> flag) is modelled by \<open>rx_test_start\<close>, which tries index 0 only.
\<close>

datatype class_item = CChar char | CRange char char | CEsc_s | CEsc_S

datatype atom = Lit char | Dot | Esc_s | Esc_w | Cls bool "class_item list"

datatype quant = One | Star | StarLazy | Plus | Opt

datatype rterm = T atom quant | Backref nat | Eos

datatype piece = P rterm | Grp "rterm list"

type_synonym regex = "piece list"

fun item_matches :: "bool \<Rightarrow> class_item \<Rightarrow> char \<Rightarrow> bool" where
  "item_matches ic (CChar x) c = (if ic then canonChar x = canonChar c else x = c)"
| "item_matches ic (CRange lo hi) c = in_range lo hi c"
| "item_matches ic CEsc_s c = isWhiteSpace c"
| "item_matches ic CEsc_S c = (\<not> isWhiteSpace c)"

fun atom_matches :: "bool \<Rightarrow> atom \<Rightarrow> char \<Rightarrow> bool" where
  "atom_matches ic (Lit x) c = (if ic then canonChar x = canonChar c else x = c)"
| "atom_matches ic Dot c = (c \<noteq> CHR 0x0A \<and> c \<noteq> CHR 0x0D)"
| "atom_matches ic Esc_s c = isWhiteSpace c"
| "atom_matches ic Esc_w c = isWordChar c"
| "atom_matches ic (Cls neg items) c = (neg \<noteq> list_ex (\<lambda>it. item_matches ic it c) items)"

text \<open>
  The remainders a quantified character can leave, in the order of the backtracking
  search: a greedy star tries the longest run first, a lazy star the shortest.
\<close>

fun greedy_star :: "(char \<Rightarrow> bool) \<Rightarrow> string \<Rightarrow> string list" where
  "greedy_star p [] = [[]]"
| "greedy_star p (c # cs) = (if p c then greedy_star p cs @ [c # cs] else [c # cs])"

fun lazy_star :: "(char \<Rightarrow> bool) \<Rightarrow> string \<Rightarrow> string list" where
  "lazy_star p [] = [[]]"
| "lazy_star p (c # cs) = (c # cs) # (if p c then lazy_star p cs else [])"

fun quant_rests :: "(char \<Rightarrow> bool) \<Rightarrow> quant \<Rightarrow> string \<Rightarrow> string list" where
  "quant_rests p One [] = []"
| "quant_rests p One (c # cs) = (if p c then [cs] else [])"
| "quant_rests p Star s = greedy_star p s"
| "quant_rests p StarLazy s = lazy_star p s"
| "quant_rests p Plus [] = []"
| "quant_rests p Plus (c # cs) = (if p c then greedy_star p cs else [])"
| "quant_rests p Opt [] = [[]]"
| "quant_rests p Opt (c # cs) = (if p c then [cs, c # cs] else [c # cs])"

text \<open>A back reference to a group that has not captured matches the empty string.\<close>

definition capture :: "string list \<Rightarrow> nat \<Rightarrow> string" where
  "capture caps n = (if 0 < n \<and> n \<le> length caps then caps ! (n - 1) else [])"

fun term_rests :: "bool \<Rightarrow> string list \<Rightarrow> rterm \<Rightarrow> string \<Rightarrow> string list" where
  "term_rests ic caps (T a q) s = quant_rests (atom_matches ic a) q s"
| "term_rests ic caps (Backref n) s =
     (let g = capture caps n in
      if length g \<le> length s
         \<and> (if ic then map canonChar (take (length g) s) = map canonChar g
             else take (length g) s = g)
      then [drop (length g) s] else [])"
| "term_rests ic caps Eos s = (if s = [] then [[]] else [])"

fun terms_rests :: "bool \<Rightarrow> string list \<Rightarrow> rterm list \<Rightarrow> string \<Rightarrow> string list" where
  "terms_rests ic caps [] s = [s]"
| "terms_rests ic caps (t # ts) s = concat (map (terms_rests ic caps ts) (term_rests ic caps t s))"

text \<open>
  A state of the matcher is the rest of the input and the captures so far (group \<open>k\<close> is
  the \<open>k\<close>-th element).  \<open>match_here\<close> lists the states in which the pattern can end when
  it starts at the head of the input.
\<close>

fun match_here :: "bool \<Rightarrow> regex \<Rightarrow> string \<Rightarrow> string list \<Rightarrow> (string \<times> string list) list" where
  "match_here ic [] s caps = [(s, caps)]"
| "match_here ic (P t # ps) s caps =
     concat (map (\<lambda>s'. match_here ic ps s' caps) (term_rests ic caps t s))"
| "match_here ic (Grp ts # ps) s caps =
     concat (map (\<lambda>s'. match_here ic ps s' (caps @ [take (length s - length s') s]))
                 (terms_rests ic caps ts s))"

record rmatch =
  index :: nat
  matched :: string
  groups :: "string list"

text \<open>The first index from \<open>i\<close> on at which the pattern matches; \<open>s\<close> is the input from \<open>i\<close>.\<close>

fun search :: "bool \<Rightarrow> regex \<Rightarrow> nat \<Rightarrow> string \<Rightarrow> rmatch option" where
  "search ic re i [] =
     (case match_here ic re [] [] of
        [] \<Rightarrow> None
      | (s', caps) # _ \<Rightarrow> Some \<lparr>index = i, matched = [], groups = caps\<rparr>)"
| "search ic re i (c # cs) =
     (case match_here ic re (c # cs) [] of
        [] \<Rightarrow> search ic re (Suc i) cs
      | (s', caps) # _ \<Rightarrow>
          Some \<lparr>index = i, matched = take (length (c # cs) - length s') (c # cs), groups = caps\<rparr>)"

text \<open>\<open>re.exec(str)\<close> for a global pattern whose \<open>lastIndex\<close> is given.\<close>

definition rx_exec :: "bool \<Rightarrow> regex \<Rightarrow> string \<Rightarrow> nat \<Rightarrow> rmatch option" where
  "rx_exec ic re str lastIndex =
     (if length str < lastIndex then None else search ic re lastIndex (drop lastIndex str))"

text \<open>\<open>re.test(s)\<close> for a pattern that starts with \<open>^\<close>: only index 0 is tried.\<close>

definition rx_test_start :: "bool \<Rightarrow> regex \<Rightarrow> string \<Rightarrow> bool" where
  "rx_test_start ic re s = (match_here ic re s [] \<noteq> [])"

text \<open>A match never ends before it starts: the states are suffixes of the input.\<close>

lemma greedy_star_length: "r \<in> set (greedy_star p s) \<Longrightarrow> length r \<le> length s"
  by (induction s) (auto split: if_splits)

lemma lazy_star_length: "r \<in> set (lazy_star p s) \<Longrightarrow> length r \<le> length s"
  by (induction s) (auto split: if_splits)

lemma quant_rests_length: "r \<in> set (quant_rests p q s) \<Longrightarrow> length r \<le> length s"
  by (induction p q s rule: quant_rests.induct)
     (auto split: if_splits dest: greedy_star_length lazy_star_length)

lemma term_rests_length: "r \<in> set (term_rests ic caps t s) \<Longrightarrow> length r \<le> length s"
  by (cases t) (auto simp: Let_def split: if_splits dest: quant_rests_length)

lemma terms_rests_length: "r \<in> set (terms_rests ic caps ts s) \<Longrightarrow> length r \<le> length s"
proof (induction ts arbitrary: s)
  case Nil
  then show ?case by simp
next
  case (Cons t ts)
  then obtain s' where "s' \<in> set (term_rests ic caps t s)" "r \<in> set (terms_rests ic caps ts s')"
    by auto
  then show ?case
    using Cons.IH term_rests_length by fastforce
qed

lemma match_here_length:
  "(r, caps') \<in> set (match_here ic re s caps) \<Longrightarrow> length r \<le> length s"
proof (induction ic re s caps rule: match_here.induct)
  case (1 ic s caps)
  then show ?case by simp
next
  case (2 ic t ps s caps)
  then obtain s' where s': "s' \<in> set (term_rests ic caps t s)"
      "(r, caps') \<in> set (match_here ic ps s' caps)"
    by auto
  from "2.IH" [OF s'] s'(1) show ?case
    using term_rests_length by fastforce
next
  case (3 ic ts ps s caps)
  then obtain s' where s': "s' \<in> set (terms_rests ic caps ts s)"
      "(r, caps') \<in> set (match_here ic ps s' (caps @ [take (length s - length s') s]))"
    by auto
  from "3.IH" [OF s'] s'(1) show ?case
    using terms_rests_length by fastforce
qed

lemma search_bounds:
  "search ic re i s = Some m \<Longrightarrow> i \<le> index m \<and> index m + length (matched m) \<le> i + length s"
proof (induction ic re i s rule: search.induct)
  case (1 ic re i)
  then show ?case by (auto split: list.splits)
next
  case (2 ic re i c cs)
  show ?case
  proof (cases "match_here ic re (c # cs) []")
    case Nil
    with 2 show ?thesis by fastforce
  next
    case (Cons st sts)
    with "2.prems" show ?thesis by (cases st) auto
  qed
qed

lemma rx_exec_bounds:
  "rx_exec ic re str lastIndex = Some m \<Longrightarrow>
     lastIndex \<le> index m \<and> index m + length (matched m) \<le> length str"
  unfolding rx_exec_def using search_bounds [of ic re lastIndex "drop lastIndex str" m]
  by (auto split: if_splits)

text \<open>
  The loop \<open>while ((m = re.exec(str)) !== null) { ... }\<close> over a global pattern: each
  match moves \<open>lastIndex\<close> to its end.  An empty match leaves \<open>lastIndex\<close> where it is, so
  \<open>exec\<close> returns the same match again and the loop never ends: the value is \<open>None\<close>.
\<close>

function exec_loop :: "bool \<Rightarrow> regex \<Rightarrow> string \<Rightarrow> nat \<Rightarrow> rmatch list option" where
  "exec_loop ic re str lastIndex =
     (case rx_exec ic re str lastIndex of
        None \<Rightarrow> Some []
      | Some m \<Rightarrow>
          if matched m = [] then None
          else map_option ((#) m) (exec_loop ic re str (index m + length (matched m))))"
  by pat_completeness auto
termination
proof (relation "measure (\<lambda>(ic, re, str, lastIndex). length str - lastIndex)")
  show "wf (measure (\<lambda>(ic, re, str, lastIndex). length str - lastIndex))" by simp
next
  fix ic re str lastIndex m
  assume "rx_exec ic re str lastIndex = Some m" "matched m \<noteq> []"
  then show "((ic, re, str, index m + length (matched m)), (ic, re, str, lastIndex))
      \<in> measure (\<lambda>(ic, re, str, lastIndex). length str - lastIndex)"
    using rx_exec_bounds [of ic re str lastIndex m] by (cases "matched m") auto
qed

declare exec_loop.simps [simp del]

text \<open>
  The matches that \<open>str.replace(re, ...)\<close> visits for a global pattern: after an empty
  match the search resumes one code unit further.
\<close>

function all_matches :: "bool \<Rightarrow> regex \<Rightarrow> string \<Rightarrow> nat \<Rightarrow> rmatch list" where
  "all_matches ic re str lastIndex =
     (case rx_exec ic re str lastIndex of
        None \<Rightarrow> []
      | Some m \<Rightarrow>
          m # all_matches ic re str
                (if matched m = [] then index m + 1 else index m + length (matched m)))"
  by pat_completeness auto
termination
proof (relation "measure (\<lambda>(ic, re, str, lastIndex). Suc (length str) - lastIndex)")
  show "wf (measure (\<lambda>(ic, re, str, lastIndex). Suc (length str) - lastIndex))" by simp
next
  fix ic re str lastIndex m
  assume "rx_exec ic re str lastIndex = Some m"
  then show "((ic, re, str,
        if matched m = [] then index m + 1 else index m + length (matched m)),
       (ic, re, str, lastIndex))
      \<in> measure (\<lambda>(ic, re, str, lastIndex). Suc (length str) - lastIndex)"
    using rx_exec_bounds [of ic re str lastIndex m] by (cases "matched m") auto
qed

declare all_matches.simps [simp del]

text \<open>
  The result of \<open>str.replace(re, f)\<close>: the text between the matches is kept and each match
  is replaced by what the callback returns for it.  \<open>pos\<close> is the end of the previous match.
\<close>

fun assemble :: "string \<Rightarrow> nat \<Rightarrow> rmatch list \<Rightarrow> (rmatch \<Rightarrow> string) \<Rightarrow> string" where
  "assemble str pos [] f = drop pos str"
| "assemble str pos (m # ms) f =
     take (index m - pos) (drop pos str) @ f m
       @ assemble str (index m + length (matched m)) ms f"

definition replace_all :: "bool \<Rightarrow> regex \<Rightarrow> string \<Rightarrow> (rmatch \<Rightarrow> string) \<Rightarrow> string" where
  "replace_all ic re str f = assemble str 0 (all_matches ic re str 0) f"

text \<open>
  \<open>str.split(re)\<close>: the separator is tried at each index \<open>q\<close> from the start \<open>p\<close> of the
  current piece on; a match that ends at \<open>p\<close> is skipped.  \<open>s\<close> is the input from \<open>p\<close> and
  \<open>q\<close> is counted from \<open>p\<close>.  The captures of the separator are spliced into the result.
\<close>

function split_loop :: "bool \<Rightarrow> regex \<Rightarrow> string \<Rightarrow> nat \<Rightarrow> string list" where
  "split_loop ic re s q =
     (if length s \<le> q then [s]
      else case match_here ic re (drop q s) [] of
             [] \<Rightarrow> split_loop ic re s (q + 1)
           | (s', caps) # _ \<Rightarrow>
               if length s - length s' = 0 then split_loop ic re s (q + 1)
               else take q s # caps @ split_loop ic re (drop (length s - length s') s) 0)"
  by pat_completeness auto
termination
proof (relation "measures [\<lambda>(ic, re, s, q). length s, \<lambda>(ic, re, s, q). length s - q]")
  show "wf (measures [\<lambda>(ic, re, s, q). length s, \<lambda>(ic, re, s, q). length s - q])" by simp
qed auto

declare split_loop.simps [simp del]

definition split_rx :: "bool \<Rightarrow> regex \<Rightarrow> string \<Rightarrow> string list" where
  "split_rx ic re s =
     (if s = [] then (if match_here ic re [] [] = [] then [s] else [])
      else split_loop ic re s 0)"

section \<open>JavaScript values and objects\<close>

text \<open>
  The values the front matter and the parameters hold (TypeScript's \<open>unknown\<close>).  The
  code only converts them with \<open>String\<close>, asks \<open>Array.isArray\<close> and \<open>typeof\<close>, and compares
  with \<open>undefined\<close> and \<open>null\<close>; a number, a date or a nested object is \<open>JOther\<close>, carrying
  the text \<open>String\<close> gives for it.
\<close>

datatype jsval = JUndefined | JNull | JBool bool | JStr string | JArr "jsval list" | JOther string

fun js_String :: "jsval \<Rightarrow> string" where
  "js_String JUndefined = ''undefined''"
| "js_String JNull = ''null''"
| "js_String (JBool b) = (if b then ''true'' else ''false'')"
| "js_String (JStr s) = s"
| "js_String (JArr xs) =
     join '','' (map (\<lambda>x. if x = JUndefined \<or> x = JNull then [] else js_String x) xs)"
| "js_String (JOther s) = s"

text \<open>
  An object is the list of its own properties in insertion order.  Property names that
  \<open>Object.prototype\<close> also defines (\<open>constructor\<close>, \<open>toString\<close>, \<open>__proto__\<close>, ...) are outside
  this model of records: \<open>plain_keys\<close> says that a record has none of them, and each name once.
\<close>

type_synonym jsobj = "(string \<times> jsval) list"

definition object_prototype_names :: "string list" where
  "object_prototype_names =
     [''constructor'', ''__defineGetter__'', ''__defineSetter__'', ''hasOwnProperty'',
      ''__lookupGetter__'', ''__lookupSetter__'', ''isPrototypeOf'', ''propertyIsEnumerable'',
      ''toString'', ''valueOf'', ''__proto__'', ''toLocaleString'']"

definition plain_keys :: "jsobj \<Rightarrow> bool" where
  "plain_keys obj =
     (distinct (map fst obj) \<and> list_all (\<lambda>k. k \<notin> set object_prototype_names) (map fst obj))"

definition js_in :: "string \<Rightarrow> jsobj \<Rightarrow> bool" where
  "js_in k obj = (map_of obj k \<noteq> None)"

definition js_get :: "jsobj \<Rightarrow> string \<Rightarrow> jsval" where
  "js_get obj k = (case map_of obj k of None \<Rightarrow> JUndefined | Some v \<Rightarrow> v)"

fun js_set :: "jsobj \<Rightarrow> string \<Rightarrow> jsval \<Rightarrow> jsobj" where
  "js_set [] k v = [(k, v)]"
| "js_set ((k', v') # obj) k v = (if k' = k then (k, v) # obj else (k', v') # js_set obj k v)"

text \<open>\<open>a ?? b\<close>\<close>

definition nullish :: "jsval \<Rightarrow> jsval \<Rightarrow> jsval" where
  "nullish a b = (if a = JUndefined \<or> a = JNull then b else a)"

datatype js_error = TypeError string | LibraryError string

section \<open>Front matter (\<open>src/content/front-matter.ts\<close>)\<close>

text \<open>
  \<open>gray-matter\<close> is a library the repository imports; \<open>matter\<close> stands for it in every
  definition that calls it: a function from the document to what the call returns, the
  parsed \<open>data\<close> and the remaining \<open>content\<close>, or to the exception it throws.

  The library does not check what the metadata block denotes, so \<open>data\<close> is a mapping when
  the block is a run of key/value lines, and otherwise a sequence (a block of list items)
  or a scalar: a string, a number, a boolean or a date.  The numbers and dates carry the
  text \<open>String\<close> gives for them.  An empty block, and one that denotes \<open>null\<close>, come back
  as the empty mapping.
\<close>

datatype gm_data =
    Mapping jsobj | Sequence "jsval list" | Text string | Number string | Boolean bool
  | Date string

record gm_file =
  data :: gm_data
  content :: string

type_synonym gray_matter = "string \<Rightarrow> js_error + gm_file"

text \<open>\<open>Object.keys(data).length\<close>: a sequence and a string have their indices as keys.\<close>

fun key_count :: "gm_data \<Rightarrow> nat" where
  "key_count (Mapping obj) = length obj"
| "key_count (Sequence xs) = length xs"
| "key_count (Text s) = length s"
| "key_count (Number n) = 0"
| "key_count (Boolean b) = 0"
| "key_count (Date d) = 0"

text \<open>
  Whether the data is an object, that is, a value that the operator \<open>in\<close> accepts as its
  right operand.
\<close>

fun is_object :: "gm_data \<Rightarrow> bool" where
  "is_object (Mapping obj) = True"
| "is_object (Sequence xs) = True"
| "is_object (Date d) = True"
| "is_object (Text s) = False"
| "is_object (Number n) = False"
| "is_object (Boolean b) = False"

abbreviation SQ :: char where "SQ \<equiv> CHR 0x27"

definition in_TypeError :: "string \<Rightarrow> string \<Rightarrow> js_error" where
  "in_TypeError k v =
     TypeError (''Cannot use '' @ [SQ] @ ''in'' @ [SQ] @ '' operator to search for '' @ [SQ] @ k
                @ [SQ] @ '' in '' @ v)"

text \<open>
  \<open>k in data\<close>.  The operator throws a \<open>TypeError\<close> when its right operand is not an
  object.  The own properties of a sequence are its indices and \<open>length\<close>.  As for records,
  the names that the prototypes define (\<open>Object.prototype\<close>, \<open>Array.prototype\<close>,
  \<open>String.prototype\<close>, \<open>Date.prototype\<close>) are outside the model.
\<close>

fun has_property :: "string \<Rightarrow> gm_data \<Rightarrow> js_error + bool" where
  "has_property k (Mapping obj) = Inr (js_in k obj)"
| "has_property k (Sequence xs) =
     Inr (k = ''length'' \<or> k \<in> set (map show_nat [0..<length xs]))"
| "has_property k (Date d) = Inr False"
| "has_property k (Text s) = Inl (in_TypeError k s)"
| "has_property k (Number n) = Inl (in_TypeError k n)"
| "has_property k (Boolean b) = Inl (in_TypeError k (if b then ''true'' else ''false''))"

text \<open>\<open>data[k]\<close>: reading a property never throws on these values.\<close>

fun get_property :: "gm_data \<Rightarrow> string \<Rightarrow> jsval" where
  "get_property (Mapping obj) k = js_get obj k"
| "get_property (Sequence xs) k =
     (if k = ''length'' then JOther (show_nat (length xs))
      else case find (\<lambda>i. show_nat i = k) [0..<length xs] of
             Some i \<Rightarrow> xs ! i
           | None \<Rightarrow> JUndefined)"
| "get_property (Text s) k =
     (if k = ''length'' then JOther (show_nat (length s))
      else case find (\<lambda>i. show_nat i = k) [0..<length s] of
             Some i \<Rightarrow> JStr [s ! i]
           | None \<Rightarrow> JUndefined)"
| "get_property (Number n) k = JUndefined"
| "get_property (Boolean b) k = JUndefined"
| "get_property (Date d) k = JUndefined"

text \<open>
  \<open>extractedValues\<close> is declared a \<open>Record<string, unknown>\<close>, but the source assigns
  \<open>parsed.data\<close> to it under a type assertion, so it holds whatever the library returned.
\<close>

record FrontMatterResult =
  cleanBody :: string
  extractedValues :: gm_data
  hasFrontMatter :: bool

definition KNOWN_FIELDS :: "string list" where
  "KNOWN_FIELDS =
     [''title'', ''published'', ''description'', ''tags'', ''series'', ''canonical_url'',
      ''cover_image'', ''main_image'']"

text \<open>
  The \<open>try\<close> block is the \<open>Inr\<close> branch and the \<open>catch\<close> block the \<open>Inl\<close> branch: whatever
  the library throws is caught, so the result has no error alternative.
\<close>

definition parseFrontMatter :: "gray_matter \<Rightarrow> string \<Rightarrow> FrontMatterResult" where
  "parseFrontMatter matter body =
     (if body = [] \<or> trim body = []
      then \<lparr>cleanBody = body, extractedValues = Mapping [], hasFrontMatter = False\<rparr>
      else case matter body of
             Inr parsed \<Rightarrow>
               \<lparr>cleanBody = content parsed, extractedValues = data parsed,
                 hasFrontMatter = (0 < key_count (data parsed))\<rparr>
           | Inl e \<Rightarrow> \<lparr>cleanBody = body, extractedValues = Mapping [], hasFrontMatter = False\<rparr>)"

fun normalizeTags :: "jsval \<Rightarrow> string" where
  "normalizeTags (JArr ts) = join '', '' (map js_String ts)"
| "normalizeTags (JStr s) = s"
| "normalizeTags JUndefined = js_String (JStr [])"
| "normalizeTags JNull = js_String (JStr [])"
| "normalizeTags v = js_String v"

record conflict =
  field :: string
  frontMatterValue :: jsval
  jsonValue :: jsval

record MergeResult =
  body :: string
  params :: jsobj
  conflicts :: "conflict list"

text \<open>
  The first loop: the front-matter values of the known fields seed the parameters.  The
  test \<open>field in extractedValues\<close> can throw, and nothing in \<open>mergeAndNormalize\<close> catches it.
\<close>

definition seed_field :: "gm_data \<Rightarrow> string \<Rightarrow> jsobj \<Rightarrow> js_error + jsobj" where
  "seed_field ev f mergedParams =
     (case has_property f ev of
        Inl e \<Rightarrow> Inl e
      | Inr present \<Rightarrow>
          Inr (if present then
                 (if f = ''tags''
                  then js_set mergedParams f (JStr (normalizeTags (get_property ev f)))
                  else if f = ''cover_image''
                  then js_set mergedParams ''main_image'' (get_property ev f)
                  else js_set mergedParams f (get_property ev f))
               else mergedParams))"

fun seed :: "gm_data \<Rightarrow> string list \<Rightarrow> jsobj \<Rightarrow> js_error + jsobj" where
  "seed ev [] mergedParams = Inr mergedParams"
| "seed ev (f # fs) mergedParams =
     (case seed_field ev f mergedParams of
        Inl e \<Rightarrow> Inl e
      | Inr mergedParams' \<Rightarrow> seed ev fs mergedParams')"

text \<open>
  The second loop, over \<open>Object.entries(jsonParams)\<close>.  \<open>front_matter_value\<close> is the
  conditional expression that reads the front matter for a key, and \<open>override_entry\<close> the
  rest of the body for an entry whose value is not \<open>undefined\<close>.
\<close>

definition front_matter_value :: "gm_data \<Rightarrow> string \<Rightarrow> js_error + jsval" where
  "front_matter_value ev key =
     (let frontMatterKey = (if key = ''main_image'' then ''cover_image'' else key)
      in case has_property frontMatterKey ev of
           Inl e \<Rightarrow> Inl e
         | Inr True \<Rightarrow> Inr (get_property ev frontMatterKey)
         | Inr False \<Rightarrow>
             (case has_property key ev of
                Inl e \<Rightarrow> Inl e
              | Inr True \<Rightarrow> Inr (get_property ev key)
              | Inr False \<Rightarrow> Inr JUndefined))"

definition override_entry ::
  "string \<Rightarrow> jsval \<Rightarrow> jsval \<Rightarrow> jsobj \<times> conflict list \<Rightarrow> jsobj \<times> conflict list" where
  "override_entry key val fmValue st =
     (let normalizedFmValue = (if key = ''tags'' then JStr (normalizeTags fmValue) else fmValue);
          normalizedJsonValue = (if key = ''tags'' then JStr (normalizeTags val) else val);
          cs' = (if fmValue \<noteq> JUndefined
                    \<and> js_String normalizedFmValue \<noteq> js_String normalizedJsonValue
                 then snd st @ [\<lparr>field = key, frontMatterValue = normalizedFmValue,
                                  jsonValue = normalizedJsonValue\<rparr>]
                 else snd st)
      in (js_set (fst st) key val, cs'))"

fun override ::
  "gm_data \<Rightarrow> jsobj \<Rightarrow> jsobj \<times> conflict list \<Rightarrow> js_error + jsobj \<times> conflict list" where
  "override ev [] st = Inr st"
| "override ev (kv # rest) st =
     (if snd kv = JUndefined then override ev rest st
      else case front_matter_value ev (fst kv) of
             Inl e \<Rightarrow> Inl e
           | Inr fmValue \<Rightarrow> override ev rest (override_entry (fst kv) (snd kv) fmValue st))"

text \<open>
  \<open>mergeAndNormalize\<close> returns a result or throws: \<open>Inl\<close> is the exception that leaves it.
\<close>

definition mergeAndNormalize ::
  "gray_matter \<Rightarrow> string option \<Rightarrow> jsobj \<Rightarrow> js_error + MergeResult" where
  "mergeAndNormalize matter body_opt jsonParams =
     (case body_opt of
        None \<Rightarrow> Inr \<lparr>body = [], params = jsonParams, conflicts = []\<rparr>
      | Some b \<Rightarrow>
          if b = [] then Inr \<lparr>body = [], params = jsonParams, conflicts = []\<rparr>
          else
            let r = parseFrontMatter matter b in
            if \<not> hasFrontMatter r
            then Inr \<lparr>body = cleanBody r, params = jsonParams, conflicts = []\<rparr>
            else
              (case seed (extractedValues r) KNOWN_FIELDS [] of
                 Inl e \<Rightarrow> Inl e
               | Inr seeded \<Rightarrow>
                   (case override (extractedValues r) jsonParams (seeded, []) of
                      Inl e \<Rightarrow> Inl e
                    | Inr (mergedParams, cs) \<Rightarrow>
                        Inr \<lparr>body = cleanBody r, params = mergedParams, conflicts = cs\<rparr>)))"

section \<open>Liquid tags (\<open>src/content/liquid-tags.ts\<close>)\<close>

datatype tag_def = TagDef (safe: bool) (convert: "string \<Rightarrow> string option \<Rightarrow> string")

text \<open>\<open>content ?? ''\<close> for the optional second argument of a converter.\<close>

definition or_empty :: "string option \<Rightarrow> string" where
  "or_empty content_opt = (case content_opt of None \<Rightarrow> [] | Some c \<Rightarrow> c)"

definition TAG_DEFS :: "(string \<times> tag_def) list" where
  "TAG_DEFS =
     [(''embed'', TagDef False (\<lambda>arg content_opt. arg)),
      (''link'', TagDef False (\<lambda>arg content_opt. ''['' @ arg @ '']('' @ arg @ '')'')),
      (''user'', TagDef False (\<lambda>arg content_opt. ''@'' @ arg)),
      (''tag'', TagDef False (\<lambda>arg content_opt. ''#'' @ arg)),
      (''github'', TagDef False
         (\<lambda>arg content_opt. ''['' @ arg @ ''](https://github.com/'' @ arg @ '')'')),
      (''youtube'', TagDef False (\<lambda>arg content_opt. ''https://www.youtube.com/watch?v='' @ arg)),
      (''twitter'', TagDef False (\<lambda>arg content_opt. ''https://twitter.com/i/status/'' @ arg)),
      (''codepen'', TagDef False (\<lambda>arg content_opt. arg)),
      (''codesandbox'', TagDef False (\<lambda>arg content_opt. ''https://codesandbox.io/s/'' @ arg)),
      (''details'', TagDef False
         (\<lambda>summary content_opt.
            ''<details>'' @ [NL] @ ''<summary>'' @ summary @ ''</summary>'' @ [NL, NL]
              @ or_empty content_opt @ [NL] @ ''</details>'')),
      (''katex'', TagDef False
         (\<lambda>arg content_opt. ''$$'' @ [NL] @ or_empty content_opt @ [NL] @ ''$$''))]"

text \<open>
  \<open>TAG_DEFS[name]\<close>.  The table is an object literal, so a name that it does not define
  but \<open>Object.prototype\<close> does (\<open>constructor\<close>, \<open>__proto__\<close>, ...) reads an inherited
  value: one that is truthy and has neither a \<open>crossPostSafe\<close> nor a \<open>convert\<close> property.
\<close>

datatype 'a property = Own 'a | Inherited | Absent

definition TAG_DEFS_get :: "string \<Rightarrow> tag_def property" where
  "TAG_DEFS_get name =
     (case map_of TAG_DEFS name of
        Some d \<Rightarrow> Own d
      | None \<Rightarrow> if name \<in> set object_prototype_names then Inherited else Absent)"

text \<open>\<open>tagDef?.crossPostSafe ?? false\<close>\<close>

definition safe_or_false :: "tag_def property \<Rightarrow> bool" where
  "safe_or_false tagDef = (case tagDef of Own d \<Rightarrow> safe d | Inherited \<Rightarrow> False | Absent \<Rightarrow> False)"

record LiquidTagMatch =
  tag :: string
  argument :: string
  fullMatch :: string
  lineNumber :: nat
  crossPostSafe :: bool
  hasEndTag :: bool

record LiquidTagReport =
  tags :: "LiquidTagMatch list"
  hasCrossPostUnsafe :: bool

definition lit :: "string \<Rightarrow> regex" where
  "lit s = map (\<lambda>c. P (T (Lit c) One)) s"

text \<open>\<open>/\{%\s*(\w+)\s*(.*?)\s*%\}([\s\S]*?)\{%\s*end\1\s*%\}/g\<close>\<close>

definition blockTagPattern :: regex where
  "blockTagPattern =
     lit ''{%'' @ [P (T Esc_s Star), Grp [T Esc_w Plus], P (T Esc_s Star), Grp [T Dot StarLazy],
       P (T Esc_s Star)] @ lit ''%}'' @ [Grp [T (Cls False [CEsc_s, CEsc_S]) StarLazy]]
     @ lit ''{%'' @ [P (T Esc_s Star)] @ lit ''end'' @ [P (Backref 1), P (T Esc_s Star)]
     @ lit ''%}''"

text \<open>\<open>/\{%\s*(\w+)\s*(.*?)\s*%\}/g\<close>\<close>

definition inlineTagPattern :: regex where
  "inlineTagPattern =
     lit ''{%'' @ [P (T Esc_s Star), Grp [T Esc_w Plus], P (T Esc_s Star), Grp [T Dot StarLazy],
       P (T Esc_s Star)] @ lit ''%}''"

text \<open>\<open>/^```/.test(line.trim())\<close>\<close>

definition is_fence_line :: "string \<Rightarrow> bool" where
  "is_fence_line line = rx_test_start False (lit ''```'') (trim line)"

text \<open>
  The loop over the lines that records the fenced regions; the state is
  \<open>insideCodeFence\<close>, \<open>charOffset\<close>, \<open>fenceStart\<close> and the ranges so far.  \<open>fenceStart\<close> is read
  only after an opening fence has assigned it, so its initial \<open>-1\<close> never reaches a range
  and the model starts it at 0.
\<close>

fun fence_scan ::
  "string list \<Rightarrow> bool \<Rightarrow> nat \<Rightarrow> nat \<Rightarrow> (nat \<times> nat) list \<Rightarrow> bool \<times> nat \<times> (nat \<times> nat) list" where
  "fence_scan [] insideFence charOffset fenceStart ranges = (insideFence, fenceStart, ranges)"
| "fence_scan (line # lines) insideFence charOffset fenceStart ranges =
     (if is_fence_line line then
        (if \<not> insideFence
         then fence_scan lines True (charOffset + length line + 1) charOffset ranges
         else fence_scan lines False (charOffset + length line + 1) fenceStart
                (ranges @ [(fenceStart, charOffset + length line)]))
      else fence_scan lines insideFence (charOffset + length line + 1) fenceStart ranges)"

text \<open>
  The ranges \<open>(start, end)\<close> of the fenced regions of a text; a fence that is still open
  at the end is closed at the length of the text.  \<open>detectLiquidTags\<close> has this loop in
  line, \<open>stripLiquidTags\<close> as its local function \<open>getCodeFenceRanges\<close>.
\<close>

definition getCodeFenceRanges :: "string \<Rightarrow> (nat \<times> nat) list" where
  "getCodeFenceRanges text =
     (case fence_scan (split_char NL text) False 0 0 [] of
        (insideFence, fenceStart, ranges) \<Rightarrow>
          if insideFence then ranges @ [(fenceStart, length text)] else ranges)"

definition isInsideCodeFence :: "(nat \<times> nat) list \<Rightarrow> nat \<Rightarrow> bool" where
  "isInsideCodeFence codeFenceRanges offset =
     list_ex (\<lambda>r. fst r \<le> offset \<and> offset < snd r) codeFenceRanges"

definition lineNumberForOffset :: "string \<Rightarrow> nat \<Rightarrow> nat" where
  "lineNumberForOffset markdown offset = 1 + length (filter (\<lambda>c. c = NL) (take offset markdown))"

definition block_entry :: "string \<Rightarrow> rmatch \<Rightarrow> LiquidTagMatch" where
  "block_entry markdown m =
     \<lparr>tag = toLowerCase (capture (groups m) 1), argument = trim (capture (groups m) 2),
      fullMatch = matched m, lineNumber = lineNumberForOffset markdown (index m),
      crossPostSafe = safe_or_false (TAG_DEFS_get (toLowerCase (capture (groups m) 1))),
      hasEndTag = True\<rparr>"

definition inline_entry :: "string \<Rightarrow> rmatch \<Rightarrow> LiquidTagMatch" where
  "inline_entry markdown m =
     \<lparr>tag = toLowerCase (capture (groups m) 1), argument = trim (capture (groups m) 2),
      fullMatch = matched m, lineNumber = lineNumberForOffset markdown (index m),
      crossPostSafe = safe_or_false (TAG_DEFS_get (toLowerCase (capture (groups m) 1))),
      hasEndTag = False\<rparr>"

text \<open>The block matches that pass the \<open>continue\<close> of the first loop.\<close>

definition reported_blocks :: "string \<Rightarrow> rmatch list \<Rightarrow> rmatch list" where
  "reported_blocks markdown ms =
     filter (\<lambda>m. \<not> isInsideCodeFence (getCodeFenceRanges markdown) (index m)) ms"

text \<open>\<open>blockTagPositions\<close>: the start and the length of each reported block match.\<close>

definition isPartOfBlock :: "(nat \<times> nat) list \<Rightarrow> nat \<Rightarrow> bool" where
  "isPartOfBlock blockTagPositions i =
     list_ex (\<lambda>pos. fst pos \<le> i \<and> i < fst pos + snd pos) blockTagPositions"

text \<open>The inline matches that pass the three \<open>continue\<close>s of the second loop.\<close>

definition reported_inlines :: "string \<Rightarrow> (nat \<times> nat) list \<Rightarrow> rmatch list \<Rightarrow> rmatch list" where
  "reported_inlines markdown blockTagPositions ms =
     filter (\<lambda>m. \<not> isInsideCodeFence (getCodeFenceRanges markdown) (index m)
                 \<and> \<not> startsWith (toLowerCase (capture (groups m) 1)) ''end''
                 \<and> \<not> isPartOfBlock blockTagPositions (index m)) ms"

definition detectLiquidTags :: "string \<Rightarrow> LiquidTagReport option" where
  "detectLiquidTags markdown =
     (if markdown = [] then Some \<lparr>tags = [], hasCrossPostUnsafe = False\<rparr>
      else
        case exec_loop False blockTagPattern markdown 0 of
          None \<Rightarrow> None
        | Some blockMatches \<Rightarrow>
            (case exec_loop False inlineTagPattern markdown 0 of
               None \<Rightarrow> None
             | Some inlineMatches \<Rightarrow>
                 let bs = reported_blocks markdown blockMatches;
                     blockTagPositions = map (\<lambda>m. (index m, length (matched m))) bs;
                     ins = reported_inlines markdown blockTagPositions inlineMatches;
                     ts = sort_key lineNumber
                            (map (block_entry markdown) bs @ map (inline_entry markdown) ins)
                 in Some \<lparr>tags = ts, hasCrossPostUnsafe = list_ex (\<lambda>t. \<not> crossPostSafe t) ts\<rparr>))"

definition convertLiquidTag :: "LiquidTagMatch \<Rightarrow> string option \<Rightarrow> js_error + string" where
  "convertLiquidTag match content_opt =
     (case TAG_DEFS_get (tag match) of
        Absent \<Rightarrow> Inr (argument match)
      | Own d \<Rightarrow> Inr (convert d (argument match) content_opt)
      | Inherited \<Rightarrow> Inl (TypeError ''tagDef.convert is not a function''))"

text \<open>\<open>str.replace(re, f)\<close> with a callback that can throw: the first exception ends the call.\<close>

fun assemble_e ::
  "string \<Rightarrow> nat \<Rightarrow> rmatch list \<Rightarrow> (rmatch \<Rightarrow> js_error + string) \<Rightarrow> js_error + string" where
  "assemble_e str pos [] f = Inr (drop pos str)"
| "assemble_e str pos (m # ms) f =
     (case f m of
        Inl e \<Rightarrow> Inl e
      | Inr r \<Rightarrow>
          (case assemble_e str (index m + length (matched m)) ms f of
             Inl e \<Rightarrow> Inl e
           | Inr rest \<Rightarrow> Inr (take (index m - pos) (drop pos str) @ r @ rest)))"

definition replace_all_e ::
  "bool \<Rightarrow> regex \<Rightarrow> string \<Rightarrow> (rmatch \<Rightarrow> js_error + string) \<Rightarrow> js_error + string" where
  "replace_all_e ic re str f = assemble_e str 0 (all_matches ic re str 0) f"

text \<open>
  The two callbacks of \<open>stripLiquidTags\<close>.  \<open>result\<close> is the variable they read: it is
  assigned when \<open>replace\<close> returns, so during a pass it is the text that pass started from.
\<close>

definition strip_block :: "string \<Rightarrow> rmatch \<Rightarrow> js_error + string" where
  "strip_block result m =
     (if isInsideCodeFence (getCodeFenceRanges result) (index m) then Inr (matched m)
      else
        case TAG_DEFS_get (toLowerCase (capture (groups m) 1)) of
          Absent \<Rightarrow>
            Inr (if trim (capture (groups m) 3) \<noteq> [] then trim (capture (groups m) 3)
                 else trim (capture (groups m) 2))
        | Own d \<Rightarrow> Inr (convert d (trim (capture (groups m) 2)) (Some (trim (capture (groups m) 3))))
        | Inherited \<Rightarrow> Inl (TypeError ''tagDef.convert is not a function''))"

definition strip_inline :: "string \<Rightarrow> rmatch \<Rightarrow> js_error + string" where
  "strip_inline result m =
     (if startsWith (toLowerCase (capture (groups m) 1)) ''end'' then Inr (matched m)
      else if isInsideCodeFence (getCodeFenceRanges result) (index m) then Inr (matched m)
      else
        case TAG_DEFS_get (toLowerCase (capture (groups m) 1)) of
          Absent \<Rightarrow> Inr (trim (capture (groups m) 2))
        | Own d \<Rightarrow> Inr (convert d (trim (capture (groups m) 2)) None)
        | Inherited \<Rightarrow> Inl (TypeError ''tagDef.convert is not a function''))"

definition stripLiquidTags :: "string \<Rightarrow> js_error + string" where
  "stripLiquidTags markdown =
     (if markdown = [] then Inr []
      else
        case replace_all_e False blockTagPattern markdown (strip_block markdown) of
          Inl e \<Rightarrow> Inl e
        | Inr result \<Rightarrow> replace_all_e False inlineTagPattern result (strip_inline result))"

section \<open>Images and content size (\<open>src/content/markdown.ts\<close>)\<close>

record ImageUrlInfo =
  url :: string
  imageLine :: nat
  isAbsolute :: bool

text \<open>\<open>/!\[.*?\]\((.*?)\)/g\<close>\<close>

definition markdownImagePattern :: regex where
  "markdownImagePattern =
     lit ''!['' @ [P (T Dot StarLazy)] @ lit '']('' @ [Grp [T Dot StarLazy]] @ lit '')''"

text \<open>\<open>/<img[^>]+src=["'](.*?)["'][^>]*>/gi\<close>\<close>

definition htmlImagePattern :: regex where
  "htmlImagePattern =
     lit ''<img'' @ [P (T (Cls True [CChar CHR ''>'']) Plus)] @ lit ''src=''
     @ [P (T (Cls False [CChar CHR 0x22, CChar CHR 0x27]) One), Grp [T Dot StarLazy],
        P (T (Cls False [CChar CHR 0x22, CChar CHR 0x27]) One),
        P (T (Cls True [CChar CHR ''>'']) Star)] @ lit ''>''"

text \<open>\<open>/^https?:\/\//i.test(url)\<close>\<close>

definition isAbsoluteUrl :: "string \<Rightarrow> bool" where
  "isAbsoluteUrl u =
     rx_test_start True (lit ''http'' @ [P (T (Lit CHR ''s'') Opt)] @ lit ''://'') u"

definition image_of :: "nat \<Rightarrow> rmatch \<Rightarrow> ImageUrlInfo" where
  "image_of n m =
     \<lparr>url = trim (capture (groups m) 1), imageLine = n,
      isAbsolute = isAbsoluteUrl (trim (capture (groups m) 1))\<rparr>"

text \<open>The body of the loop over the lines: the two \<open>exec\<close> loops on one line.\<close>

definition line_images :: "nat \<Rightarrow> string \<Rightarrow> ImageUrlInfo list option" where
  "line_images n line =
     (case exec_loop False markdownImagePattern line 0 of
        None \<Rightarrow> None
      | Some mds \<Rightarrow>
          (case exec_loop True htmlImagePattern line 0 of
             None \<Rightarrow> None
           | Some htmls \<Rightarrow> Some (map (image_of n) mds @ map (image_of n) htmls)))"

fun images_from :: "nat \<Rightarrow> string list \<Rightarrow> ImageUrlInfo list option" where
  "images_from lineIndex [] = Some []"
| "images_from lineIndex (line # lines) =
     (case line_images (lineIndex + 1) line of
        None \<Rightarrow> None
      | Some here \<Rightarrow> map_option ((@) here) (images_from (lineIndex + 1) lines))"

definition extractImageUrls :: "string \<Rightarrow> ImageUrlInfo list option" where
  "extractImageUrls markdown =
     (if markdown = [] then Some [] else images_from 0 (split_char NL markdown))"

text \<open>The six replacements of \<open>isSubstantialContent\<close>, in the order of the source.\<close>

definition strip_code_blocks :: "string \<Rightarrow> string" where
  "strip_code_blocks s =
     replace_all False
       (lit ''```'' @ [P (T (Cls False [CEsc_s, CEsc_S]) StarLazy)] @ lit ''```'') s (\<lambda>m. [])"

definition strip_inline_code :: "string \<Rightarrow> string" where
  "strip_inline_code s =
     replace_all False
       (lit ''`'' @ [P (T (Cls True [CChar CHR ''`'']) Plus)] @ lit ''`'') s (\<lambda>m. [])"

definition strip_images :: "string \<Rightarrow> string" where
  "strip_images s =
     replace_all False
       (lit ''!['' @ [P (T Dot StarLazy)] @ lit '']('' @ [P (T Dot StarLazy)] @ lit '')'') s
       (\<lambda>m. [])"

definition strip_links :: "string \<Rightarrow> string" where
  "strip_links s =
     replace_all False
       (lit ''['' @ [Grp [T (Cls True [CChar CHR '']'']) Star]] @ lit '']('' @ [P (T Dot StarLazy)]
        @ lit '')'') s
       (\<lambda>m. capture (groups m) 1)"

definition strip_html :: "string \<Rightarrow> string" where
  "strip_html s =
     replace_all False
       (lit ''<'' @ [P (T (Cls True [CChar CHR ''>'']) Plus)] @ lit ''>'') s (\<lambda>m. [])"

definition strip_formatting :: "string \<Rightarrow> string" where
  "strip_formatting s =
     replace_all False
       [P (T (Cls False [CChar CHR ''#'', CChar CHR ''*'', CChar CHR ''_'', CChar CHR ''~'',
                         CChar CHR ''>'', CChar CHR ''-'']) One)] s
       (\<lambda>m. [])"

definition stripped_text :: "string \<Rightarrow> string" where
  "stripped_text markdown =
     strip_formatting (strip_html (strip_links (strip_images (strip_inline_code
       (strip_code_blocks markdown)))))"

text \<open>\<open>stripped.trim().split(/\s+/).filter((word) => word.length > 0)\<close>\<close>

definition content_words :: "string \<Rightarrow> string list" where
  "content_words stripped =
     filter (\<lambda>word. 0 < length word) (split_rx False [P (T Esc_s Plus)] (trim stripped))"

definition isSubstantialContent :: "string \<Rightarrow> bool" where
  "isSubstantialContent markdown =
     (if markdown = [] \<or> trim markdown = [] then False
      else 10 \<le> length (content_words (stripped_text markdown)))"

section \<open>The validator (\<open>src/content/validator.ts\<close>)\<close>

datatype tags_value = TagString string | TagArray "string list"

record ValidateArticleParams =
  title :: "string option"
  body_markdown :: "string option"
  tags_param :: "tags_value option"
  main_image :: "string option"
  canonical_url :: "string option"
  description :: "string option"
  published :: "bool option"

datatype ValidationSeverity = error | warning | info

datatype LinusErrorCode =
    auth_failed | rate_limited | not_found | validation_failed | invalid_request | forbidden
  | front_matter_conflict | liquid_tag_detected | image_not_absolute | unpublish_only | api_error

record ValidationIssue =
  severity :: ValidationSeverity
  code :: LinusErrorCode
  message :: string
  line :: "nat option"

record ValidationResult =
  valid :: bool
  issues :: "ValidationIssue list"

abbreviation DQ :: char where "DQ \<equiv> CHR 0x22"

text \<open>The value of an optional string when it is truthy: present and not empty.\<close>

definition truthy :: "string option \<Rightarrow> string option" where
  "truthy s = (case s of None \<Rightarrow> None | Some v \<Rightarrow> if v = [] then None else Some v)"

text \<open>\<open>params.tags\<close> when it is truthy: a string that is not empty, or any array.\<close>

definition truthy_tags :: "tags_value option \<Rightarrow> tags_value option" where
  "truthy_tags t =
     (case t of
        None \<Rightarrow> None
      | Some (TagString s) \<Rightarrow> if s = [] then None else Some (TagString s)
      | Some (TagArray a) \<Rightarrow> Some (TagArray a))"

definition normalizeTagList :: "tags_value \<Rightarrow> string list" where
  "normalizeTagList t =
     (case t of
        TagArray a \<Rightarrow> map (\<lambda>t. toLowerCase (trim t)) a
      | TagString s \<Rightarrow>
          filter (\<lambda>t. t \<noteq> []) (map (\<lambda>t. toLowerCase (trim t)) (split_char CHR '','' s)))"

text \<open>\<open>/^[a-z0-9_]+$/.test(tag)\<close>\<close>

definition valid_tag :: "string \<Rightarrow> bool" where
  "valid_tag t =
     rx_test_start False
       [P (T (Cls False [CRange CHR ''a'' CHR ''z'', CRange CHR ''0'' CHR ''9'', CChar CHR ''_''])
             Plus), P Eos] t"

definition presence_issues :: "ValidateArticleParams \<Rightarrow> ValidationIssue list" where
  "presence_issues ps =
     (if truthy (title ps) = None \<and> truthy (body_markdown ps) = None
      then [\<lparr>severity = error, code = validation_failed,
              message = ''Article must have a title or body_markdown.'', line = None\<rparr>]
      else [])"

definition too_many_tags :: "string list \<Rightarrow> ValidationIssue list" where
  "too_many_tags tagList =
     (if 4 < length tagList
      then [\<lparr>severity = error, code = validation_failed,
              message = ''Too many tags ('' @ show_nat (length tagList) @ ''). Maximum is 4.'',
              line = None\<rparr>]
      else [])"

definition invalid_tag :: "string \<Rightarrow> ValidationIssue" where
  "invalid_tag t =
     \<lparr>severity = error, code = validation_failed,
      message = ''Invalid tag '' @ [DQ] @ t @ [DQ]
        @ ''. Tags must be lowercase alphanumeric with underscores only.'',
      line = None\<rparr>"

definition tag_issues :: "ValidateArticleParams \<Rightarrow> ValidationIssue list" where
  "tag_issues ps =
     (case truthy_tags (tags_param ps) of
        None \<Rightarrow> []
      | Some t \<Rightarrow>
          too_many_tags (normalizeTagList t)
          @ map invalid_tag (filter (\<lambda>t. \<not> valid_tag t) (normalizeTagList t)))"

definition cover_issues :: "ValidateArticleParams \<Rightarrow> ValidationIssue list" where
  "cover_issues ps =
     (case truthy (main_image ps) of
        None \<Rightarrow> []
      | Some u \<Rightarrow>
          if \<not> isAbsoluteUrl u
          then [\<lparr>severity = error, code = image_not_absolute,
                  message = ''Cover image URL must be absolute: '' @ [DQ] @ u @ [DQ],
                  line = None\<rparr>]
          else [])"

definition image_issue :: "ImageUrlInfo \<Rightarrow> ValidationIssue" where
  "image_issue img =
     \<lparr>severity = error, code = image_not_absolute,
      message = ''Image on line '' @ show_nat (imageLine img) @ '' uses non-absolute URL: ''
        @ [DQ] @ url img @ [DQ],
      line = Some (imageLine img)\<rparr>"

definition body_image_issues :: "ValidateArticleParams \<Rightarrow> ValidationIssue list option" where
  "body_image_issues ps =
     (case truthy (body_markdown ps) of
        None \<Rightarrow> Some []
      | Some b \<Rightarrow>
          map_option (\<lambda>images. map image_issue (filter (\<lambda>img. \<not> isAbsolute img) images))
            (extractImageUrls b))"

text \<open>\<open>jsonFields\<close>: the four parameters that are not \<open>undefined\<close>, in the order of insertion.\<close>

definition tags_jsval :: "tags_value \<Rightarrow> jsval" where
  "tags_jsval t = (case t of TagString s \<Rightarrow> JStr s | TagArray a \<Rightarrow> JArr (map JStr a))"

definition jsonFields :: "ValidateArticleParams \<Rightarrow> jsobj" where
  "jsonFields ps =
     (case title ps of None \<Rightarrow> [] | Some v \<Rightarrow> [(''title'', JStr v)])
     @ (case tags_param ps of None \<Rightarrow> [] | Some v \<Rightarrow> [(''tags'', tags_jsval v)])
     @ (case description ps of None \<Rightarrow> [] | Some v \<Rightarrow> [(''description'', JStr v)])
     @ (case main_image ps of None \<Rightarrow> [] | Some v \<Rightarrow> [(''main_image'', JStr v)])"

text \<open>The body of the loop over \<open>Object.entries(jsonFields)\<close>.\<close>

definition conflict_issue :: "gm_data \<Rightarrow> string \<times> jsval \<Rightarrow> ValidationIssue list" where
  "conflict_issue ev entry =
     (let frontMatterKey = (if fst entry = ''main_image'' then ''cover_image'' else fst entry);
          fmValue = nullish (get_property ev frontMatterKey) (get_property ev (fst entry))
      in if fmValue \<noteq> JUndefined \<and> js_String fmValue \<noteq> js_String (snd entry)
         then [\<lparr>severity = warning, code = front_matter_conflict,
                 message = ''Front matter '' @ [DQ] @ frontMatterKey @ [DQ] @ '' value '' @ [DQ]
                   @ js_String fmValue @ [DQ] @ '' conflicts with parameter '' @ [DQ]
                   @ js_String (snd entry) @ [DQ] @ ''. Parameter value will be used.'',
                 line = None\<rparr>]
         else [])"

definition conflict_issues :: "gray_matter \<Rightarrow> ValidateArticleParams \<Rightarrow> ValidationIssue list" where
  "conflict_issues matter ps =
     (case truthy (body_markdown ps) of
        None \<Rightarrow> []
      | Some b \<Rightarrow>
          if hasFrontMatter (parseFrontMatter matter b)
          then concat (map (conflict_issue (extractedValues (parseFrontMatter matter b)))
                           (jsonFields ps))
          else [])"

definition liquid_issue :: "LiquidTagMatch \<Rightarrow> ValidationIssue" where
  "liquid_issue t =
     \<lparr>severity = info, code = liquid_tag_detected,
      message = ''Liquid tag {% '' @ tag t @ '' '' @ argument t @ '' %} on line ''
        @ show_nat (lineNumber t) @ (if crossPostSafe t then [] else '' (not cross-post safe)''),
      line = Some (lineNumber t)\<rparr>"

definition liquid_issues :: "ValidateArticleParams \<Rightarrow> ValidationIssue list option" where
  "liquid_issues ps =
     (case truthy (body_markdown ps) of
        None \<Rightarrow> Some []
      | Some b \<Rightarrow>
          map_option (\<lambda>liquidReport. map liquid_issue (tags liquidReport)) (detectLiquidTags b))"

definition quality_issues :: "ValidateArticleParams \<Rightarrow> ValidationIssue list" where
  "quality_issues ps =
     (case truthy (body_markdown ps) of
        None \<Rightarrow> []
      | Some b \<Rightarrow>
          if \<not> isSubstantialContent b
          then [\<lparr>severity = warning, code = validation_failed,
                  message = ''Article body appears to lack substantial content.'', line = None\<rparr>]
          else [])"

text \<open>
  The issues are appended in the order of the checks in the source.  Only the two checks
  that loop over \<open>exec\<close> could fail to return: \<open>None\<close> is the call not returning.
\<close>

definition validateArticle :: "gray_matter \<Rightarrow> ValidateArticleParams \<Rightarrow> ValidationResult option" where
  "validateArticle matter ps =
     (case body_image_issues ps of
        None \<Rightarrow> None
      | Some imageIssues \<Rightarrow>
          (case liquid_issues ps of
             None \<Rightarrow> None
           | Some liquidIssues \<Rightarrow>
               let all = presence_issues ps @ tag_issues ps @ cover_issues ps @ imageIssues
                           @ conflict_issues matter ps @ liquidIssues @ quality_issues ps
               in Some \<lparr>valid = \<not> list_ex (\<lambda>issue. severity issue = error) all,
                        issues = all\<rparr>))"

section \<open>The notions of the specification\<close>

text \<open>
  A pattern that never matches the empty string: the \<open>exec\<close> loop over it ends, and visits
  the matches that \<open>replace\<close> visits.
\<close>

definition never_empty :: "bool \<Rightarrow> regex \<Rightarrow> bool" where
  "never_empty ic re =
     (\<forall>s r caps'. (r, caps') \<in> set (match_here ic re s []) \<longrightarrow> length r < length s)"

text \<open>
  A prefix compared without regard to case: both sides in canonical form, as a literal
  is matched under the \<open>i\<close> flag.
\<close>

definition startsWith_ci :: "string \<Rightarrow> string \<Rightarrow> bool" where
  "startsWith_ci s p = startsWith (map canonChar s) (map canonChar p)"

text \<open>
  The references of one line: its markdown images from left to right, then its HTML
  images from left to right.
\<close>

definition images_on_line :: "nat \<Rightarrow> string \<Rightarrow> ImageUrlInfo list" where
  "images_on_line n l =
     map (image_of n) (all_matches False markdownImagePattern l 0)
     @ map (image_of n) (all_matches True htmlImagePattern l 0)"

text \<open>
  The offsets, in a line, of the occurrences behind the references of that line, in the
  order in which the references are recorded.
\<close>

definition recorded_offsets :: "string \<Rightarrow> nat list" where
  "recorded_offsets l =
     map index (all_matches False markdownImagePattern l 0)
     @ map index (all_matches True htmlImagePattern l 0)"

text \<open>
  The fenced regions in the words of the specification.  A line whose trimmed content
  begins with three backticks toggles the state "inside a fence".  \<open>fenced_at ls inside off\<close>
  says whether the offset \<open>off\<close>, counted from the start of the lines \<open>ls\<close>, lies in a fenced
  region when the state before \<open>ls\<close> is \<open>inside\<close>: a character of a fence line, or of any
  line while inside, does; the newline that ends a line does when the region goes on
  after it; a fence still open at the last line runs to the end of the document.
\<close>

fun fenced_at :: "string list \<Rightarrow> bool \<Rightarrow> nat \<Rightarrow> bool" where
  "fenced_at [] inside off = False"
| "fenced_at (l # ls) inside off =
     (if off < length l then is_fence_line l \<or> inside
      else if off = length l then ls \<noteq> [] \<and> (if is_fence_line l then \<not> inside else inside)
      else fenced_at ls (if is_fence_line l then \<not> inside else inside) (off - length l - 1))"

text \<open>The ranges once the loop is over: a fence still open is closed at \<open>len\<close>.\<close>

definition close_fence :: "bool \<times> nat \<times> (nat \<times> nat) list \<Rightarrow> nat \<Rightarrow> (nat \<times> nat) list" where
  "close_fence st len =
     (case st of (insideFence, fenceStart, ranges) \<Rightarrow>
        if insideFence then ranges @ [(fenceStart, len)] else ranges)"

text \<open>
  The words of a text in the words of the specification: the text is cut at white space
  and the empty pieces are dropped.  \<open>cur\<close> is the piece being read.
\<close>

fun tokens_acc :: "string \<Rightarrow> string \<Rightarrow> string list" where
  "tokens_acc cur [] = (if cur = [] then [] else [cur])"
| "tokens_acc cur (c # cs) =
     (if isWhiteSpace c then (if cur = [] then tokens_acc [] cs else cur # tokens_acc [] cs)
      else tokens_acc (cur @ [c]) cs)"

definition ws_tokens :: "string \<Rightarrow> string list" where
  "ws_tokens s = tokens_acc [] s"

section \<open>Example inputs\<close>

text \<open>The parameter set \<open>{}\<close>.\<close>

definition no_params :: ValidateArticleParams where
  "no_params =
     \<lparr>title = None, body_markdown = None, tags_param = None, main_image = None,
      canonical_url = None, description = None, published = None\<rparr>"

text \<open>The document of the example: a front-matter block with a title, then a heading.\<close>

definition example_doc :: string where
  "example_doc = ''---'' @ [NL] @ ''title: FM Title'' @ [NL] @ ''---'' @ [NL] @ ''# Content''"

text \<open>A document whose front matter gives the tags as a list.\<close>

definition tags_doc :: string where
  "tags_doc = ''---'' @ [NL] @ ''tags:'' @ [NL] @ ''  - javascript'' @ [NL] @ ''  - typescript''
     @ [NL] @ ''---'' @ [NL] @ ''Content''"

text \<open>A line with an HTML image followed by a markdown image.\<close>

definition mixed_line :: string where
  "mixed_line = ''<img src='' @ [DQ] @ ''a.png'' @ [DQ] @ ''> ![x](b.png)''"

text \<open>
  Two documents in which a block that opens outside a fence closes inside it.
\<close>

definition fenced_tag_doc :: string where
  "fenced_tag_doc = ''{% user a %}'' @ [NL] @ ''```'' @ [NL] @ ''{% enduser %}'' @ [NL]
     @ ''{% youtube abc %}'' @ [NL] @ ''```''"

definition fenced_end_doc :: string where
  "fenced_end_doc = ''{% details T %}'' @ [NL] @ ''```'' @ [NL] @ ''{% enddetails %}'' @ [NL] @ ''```''"

text \<open>
  A document whose metadata block is not a run of key/value lines but the one word
  \<open>hello\<close>: the YAML parser of the library reads the block as that string.
\<close>

definition scalar_doc :: string where
  "scalar_doc = ''---'' @ [NL] @ ''hello'' @ [NL] @ ''---'' @ [NL] @ ''body''"

text \<open>
  Two documents that are code from the first character to the last: a fence that is never
  closed, with eleven words in it, and a closed fence whose only line of code has three
  backticks in the middle.
\<close>

definition open_fence_doc :: string where
  "open_fence_doc =
     ''```'' @ [NL] @ ''one two three four five six seven eight nine ten eleven''"

definition inner_fence_doc :: string where
  "inner_fence_doc =
     ''```'' @ [NL] @ ''x ``` one two three four five six seven eight nine ten'' @ [NL] @ ''```''"

section \<open>Facts about the matcher\<close>

lemma match_here_One_shrinks:
  "(r, caps') \<in> set (match_here ic (P (T a One) # ps) s caps) \<Longrightarrow> length r < length s"
proof (cases s)
  case Nil
  assume "(r, caps') \<in> set (match_here ic (P (T a One) # ps) s caps)"
  with Nil show ?thesis by simp
next
  case (Cons c cs)
  assume "(r, caps') \<in> set (match_here ic (P (T a One) # ps) s caps)"
  with Cons have "(r, caps') \<in> set (match_here ic ps cs caps)"
    by (auto split: if_splits)
  then have "length r \<le> length cs" by (rule match_here_length)
  with Cons show ?thesis by simp
qed

lemma never_empty_One: "never_empty ic (P (T a One) # ps)"
  unfolding never_empty_def using match_here_One_shrinks by blast

lemma search_nonempty:
  "never_empty ic re \<Longrightarrow> search ic re i s = Some m \<Longrightarrow> matched m \<noteq> []"
proof (induction ic re i s rule: search.induct)
  case (1 ic re i)
  show ?case
  proof (cases "match_here ic re [] []")
    case Nil
    with 1 show ?thesis by simp
  next
    case (Cons st sts)
    obtain s' caps where st: "st = (s', caps)" by (cases st)
    with Cons have "(s', caps) \<in> set (match_here ic re [] [])" by simp
    with "1.prems"(1) have "length s' < length ([] :: string)"
      unfolding never_empty_def by blast
    then show ?thesis by simp
  qed
next
  case (2 ic re i c cs)
  show ?case
  proof (cases "match_here ic re (c # cs) []")
    case Nil
    with 2 show ?thesis by simp
  next
    case (Cons st sts)
    obtain s' caps where st: "st = (s', caps)" by (cases st)
    with Cons have "(s', caps) \<in> set (match_here ic re (c # cs) [])" by simp
    with "2.prems"(1) have "length s' < length (c # cs)"
      unfolding never_empty_def by blast
    with "2.prems"(2) Cons st show ?thesis by auto
  qed
qed

lemma exec_loop_all_matches:
  "never_empty ic re \<Longrightarrow> exec_loop ic re str i = Some (all_matches ic re str i)"
proof (induction ic re str i rule: exec_loop.induct)
  case (1 ic re str lastIndex)
  show ?case
  proof (cases "rx_exec ic re str lastIndex")
    case None
    then show ?thesis
      by (simp add: exec_loop.simps [of ic re str lastIndex]
                    all_matches.simps [of ic re str lastIndex])
  next
    case (Some m)
    with "1.prems" have ne: "matched m \<noteq> []"
      unfolding rx_exec_def by (auto split: if_splits dest: search_nonempty)
    from "1.IH" [OF Some ne "1.prems"] Some ne show ?thesis
      by (simp add: exec_loop.simps [of ic re str lastIndex]
                    all_matches.simps [of ic re str lastIndex])
  qed
qed

lemma all_matches_index_ge:
  "m \<in> set (all_matches ic re str i) \<Longrightarrow> i \<le> index m"
proof (induction ic re str i rule: all_matches.induct)
  case (1 ic re str lastIndex)
  show ?case
  proof (cases "rx_exec ic re str lastIndex")
    case None
    with "1.prems" show ?thesis by (simp add: all_matches.simps [of ic re str lastIndex])
  next
    case (Some m0)
    note b = rx_exec_bounds [OF Some]
    from "1.prems" Some have "m = m0 \<or> m \<in> set (all_matches ic re str
        (if matched m0 = [] then index m0 + 1 else index m0 + length (matched m0)))"
      by (simp add: all_matches.simps [of ic re str lastIndex])
    then show ?thesis
    proof
      assume "m = m0" with b show ?thesis by simp
    next
      assume "m \<in> set (all_matches ic re str
        (if matched m0 = [] then index m0 + 1 else index m0 + length (matched m0)))"
      from "1.IH" [OF Some this] b show ?thesis by (auto split: if_splits)
    qed
  qed
qed

lemma all_matches_sorted:
  "sorted_wrt (<) (map index (all_matches ic re str i))"
proof (induction ic re str i rule: all_matches.induct)
  case (1 ic re str lastIndex)
  show ?case
  proof (cases "rx_exec ic re str lastIndex")
    case None
    then show ?thesis by (simp add: all_matches.simps [of ic re str lastIndex])
  next
    case (Some m0)
    let ?next = "if matched m0 = [] then index m0 + 1 else index m0 + length (matched m0)"
    have "index m0 < ?next" by (cases "matched m0") auto
    then have "\<forall>m \<in> set (all_matches ic re str ?next). index m0 < index m"
      using all_matches_index_ge [of _ ic re str ?next] by fastforce
    with "1.IH" [OF Some] Some show ?thesis
      by (simp add: all_matches.simps [of ic re str lastIndex])
  qed
qed

lemma all_matches_Nil: "never_empty ic re \<Longrightarrow> all_matches ic re [] 0 = []"
proof -
  assume n: "never_empty ic re"
  have "match_here ic re [] [] = []"
  proof (cases "match_here ic re [] []")
    case Nil
    then show ?thesis .
  next
    case (Cons st sts)
    obtain s' caps where "st = (s', caps)" by (cases st)
    with Cons have "(s', caps) \<in> set (match_here ic re [] [])" by simp
    with n have "length s' < length ([] :: string)" unfolding never_empty_def by blast
    then show ?thesis by simp
  qed
  then show ?thesis
    by (simp add: all_matches.simps [of ic re "[]" 0] rx_exec_def)
qed

lemma match_here_lit:
  "match_here ic (lit p @ re) s caps =
     (if length p \<le> length s \<and> list_all2 (\<lambda>x c. atom_matches ic (Lit x) c) p (take (length p) s)
      then match_here ic re (drop (length p) s) caps else [])"
proof (induction p arbitrary: s)
  case Nil
  then show ?case by (simp add: lit_def)
next
  case (Cons x p)
  have l: "lit (x # p) @ re = P (T (Lit x) One) # (lit p @ re)" by (simp add: lit_def)
  show ?case
  proof (cases s)
    case Nil
    then show ?thesis by (simp add: l)
  next
    case s: (Cons c cs)
    show ?thesis
    proof (cases "atom_matches ic (Lit x) c")
      case True
      with s Cons.IH [of cs] show ?thesis by (simp add: l del: atom_matches.simps)
    next
      case False
      with s show ?thesis by (simp add: l del: atom_matches.simps)
    qed
  qed
qed

lemma startsWith_ci_iff:
  "startsWith_ci s p \<longleftrightarrow>
     length p \<le> length s \<and> list_all2 (\<lambda>x c. atom_matches True (Lit x) c) p (take (length p) s)"
  unfolding startsWith_ci_def
proof (induction p arbitrary: s)
  case Nil
  then show ?case by simp
next
  case (Cons x p)
  then show ?case by (cases s) auto
qed

lemma match_here_lit_ci:
  "match_here True (lit p @ re) s caps =
     (if startsWith_ci s p then match_here True re (drop (length p) s) caps else [])"
  by (simp only: match_here_lit startsWith_ci_iff)

lemma startsWith_ci_append:
  "startsWith_ci s (p @ q) \<longleftrightarrow> startsWith_ci s p \<and> startsWith_ci (drop (length p) s) q"
  unfolding startsWith_ci_def
proof (induction p arbitrary: s)
  case Nil
  then show ?case by simp
next
  case (Cons x p)
  then show ?case by (cases s) auto
qed

lemma startsWith_ci_single:
  "startsWith_ci s [x] \<longleftrightarrow> (case s of [] \<Rightarrow> False | c # cs \<Rightarrow> canonChar x = canonChar c)"
  unfolding startsWith_ci_def by (cases s) auto

lemma match_lit_ne:
  "match_here True (lit p @ re) s caps \<noteq> [] \<longleftrightarrow>
     startsWith_ci s p \<and> match_here True re (drop (length p) s) caps \<noteq> []"
  by (simp add: match_here_lit_ci del: match_here.simps)

lemma match_tail: "match_here True (lit q) v [] \<noteq> [] \<longleftrightarrow> startsWith_ci v q"
  using match_lit_ne [of q "[]" v "[]"] by simp

lemma match_opt_tail:
  "match_here True (P (T (Lit x) Opt) # lit q) v [] \<noteq> [] \<longleftrightarrow>
     (startsWith_ci v [x] \<and> startsWith_ci (drop (length [x]) v) q) \<or> startsWith_ci v q"
proof (cases v)
  case Nil
  then show ?thesis by (simp add: match_tail startsWith_ci_single)
next
  case (Cons c cs)
  show ?thesis
  proof (cases "canonChar x = canonChar c")
    case True
    with Cons show ?thesis by (simp add: match_tail startsWith_ci_single)
  next
    case False
    with Cons show ?thesis by (simp add: match_tail startsWith_ci_single)
  qed
qed

lemma isAbsoluteUrl_iff:
  "isAbsoluteUrl u \<longleftrightarrow> startsWith_ci u ''http://'' \<or> startsWith_ci u ''https://''"
proof -
  have a: "''http://'' = ''http'' @ ''://''" "''https://'' = ''http'' @ ''s'' @ ''://''" by simp_all
  have "isAbsoluteUrl u \<longleftrightarrow>
          match_here True (lit ''http'' @ (P (T (Lit CHR ''s'') Opt) # lit ''://'')) u [] \<noteq> []"
    by (simp add: isAbsoluteUrl_def rx_test_start_def)
  also have "\<dots> \<longleftrightarrow> startsWith_ci u ''http''
       \<and> ((startsWith_ci (drop (length ''http'') u) ''s''
            \<and> startsWith_ci (drop (length ''s'') (drop (length ''http'') u)) ''://'')
          \<or> startsWith_ci (drop (length ''http'') u) ''://'')"
    by (simp only: match_lit_ne match_opt_tail)
  also have "\<dots> \<longleftrightarrow> startsWith_ci u ''http://'' \<or> startsWith_ci u ''https://''"
    unfolding a startsWith_ci_append by blast
  finally show ?thesis .
qed

lemma greedy_star_hd: "\<exists>rs. greedy_star p s = dropWhile p s # rs"
  by (induction s) auto

lemma atom_matches_Esc_s: "atom_matches ic Esc_s = isWhiteSpace"
  by (rule ext) simp

lemma match_here_ws_plus:
  "match_here False [P (T Esc_s Plus)] s [] =
     (case s of [] \<Rightarrow> []
      | c # cs \<Rightarrow> if isWhiteSpace c then map (\<lambda>r. (r, [])) (greedy_star isWhiteSpace cs) else [])"
proof -
  have c: "\<And>rs. concat (map (\<lambda>s'. [(s', [] :: string list)]) rs) = map (\<lambda>r. (r, [])) rs"
    by (induct_tac rs) auto
  show ?thesis
  proof (cases s)
    case Nil
    then show ?thesis by simp
  next
    case (Cons a as)
    then show ?thesis by (simp add: c atom_matches_Esc_s del: atom_matches.simps)
  qed
qed

text \<open>
  Replacing every match of a one-character pattern by the empty string removes the
  characters that match.
\<close>

lemma search_single:
  "search False [P (T a One)] i s =
     (case dropWhile (\<lambda>c. \<not> atom_matches False a c) s of
        [] \<Rightarrow> None
      | c # r \<Rightarrow> Some \<lparr>index = i + length (takeWhile (\<lambda>c. \<not> atom_matches False a c) s),
                        matched = [c], groups = []\<rparr>)"
proof (induction s arbitrary: i)
  case Nil
  then show ?case by simp
next
  case (Cons c cs)
  show ?case
  proof (cases "atom_matches False a c")
    case True
    then show ?thesis by (simp del: atom_matches.simps)
  next
    case False
    then have "search False [P (T a One)] i (c # cs) = search False [P (T a One)] (Suc i) cs"
      by (simp del: atom_matches.simps)
    moreover have "dropWhile (\<lambda>c. \<not> atom_matches False a c) (c # cs)
                     = dropWhile (\<lambda>c. \<not> atom_matches False a c) cs"
      and "takeWhile (\<lambda>c. \<not> atom_matches False a c) (c # cs)
                     = c # takeWhile (\<lambda>c. \<not> atom_matches False a c) cs"
      using False by simp_all
    ultimately show ?thesis
      unfolding Cons [of "Suc i"] by (simp only:) (intro list.case_cong refl, simp_all)
  qed
qed

lemma replace_single:
  "pos \<le> length str \<Longrightarrow>
   assemble str pos (all_matches False [P (T a One)] str pos) (\<lambda>m. [])
     = filter (\<lambda>c. \<not> atom_matches False a c) (drop pos str)"
proof (induction "False" "[P (T a One)]" str pos rule: all_matches.induct)
  case (1 str pos)
  let ?p = "\<lambda>c. \<not> atom_matches False a c"
  let ?d = "drop pos str"
  have ex: "rx_exec False [P (T a One)] str pos = search False [P (T a One)] pos ?d"
    using "1.prems" by (simp add: rx_exec_def)
  show ?case
  proof (cases "dropWhile ?p ?d")
    case Nil
    then have n: "rx_exec False [P (T a One)] str pos = None"
      by (simp only: ex search_single) simp
    from Nil have "filter ?p ?d = ?d"
      by (simp only: dropWhile_eq_Nil_conv filter_id_conv)
    with n show ?thesis
      by (subst all_matches.simps) simp
  next
    case (Cons c r)
    define k where "k = length (takeWhile ?p ?d)"
    define m where "m = \<lparr>index = pos + k, matched = [c], groups = []\<rparr>"
    have sm: "rx_exec False [P (T a One)] str pos = Some m"
      by (simp only: ex search_single Cons m_def k_def) simp
    have d: "?d = takeWhile ?p ?d @ c # r"
      using Cons by (metis takeWhile_dropWhile_id)
    have pc: "\<not> ?p c" using Cons by (metis hd_dropWhile list.sel(1) list.distinct(1))
    have kd: "k < length ?d" by (subst d) (simp add: k_def)
    then have le: "pos + k + 1 \<le> length str" by simp
    have r: "drop (pos + k + 1) str = r"
    proof -
      have "drop (pos + k + 1) str = drop (k + 1) ?d" by (simp add: add.commute add.left_commute)
      also have "\<dots> = drop (k + 1) (takeWhile ?p ?d @ c # r)" using d by simp
      also have "\<dots> = r" by (simp add: k_def)
      finally show ?thesis .
    qed
    have tk: "take k ?d = takeWhile ?p ?d"
      by (subst d) (simp add: k_def)
    have ih: "assemble str (pos + k + 1) (all_matches False [P (T a One)] str (pos + k + 1)) (\<lambda>m. [])
                = filter ?p r"
      using "1.hyps" [OF sm] le r by (simp add: m_def)
    have u: "all_matches False [P (T a One)] str pos
               = m # all_matches False [P (T a One)] str (pos + k + 1)"
      by (subst all_matches.simps) (simp add: sm, simp add: m_def)
    have "filter ?p ?d = filter ?p (takeWhile ?p ?d @ c # r)" using d by simp
    also have "\<dots> = takeWhile ?p ?d @ filter ?p r"
    proof -
      have "filter ?p (takeWhile ?p ?d) = takeWhile ?p ?d"
        by (rule filter_id_conv [THEN iffD2]) (auto dest: set_takeWhileD)
      with pc show ?thesis by simp
    qed
    finally have f: "filter ?p ?d = takeWhile ?p ?d @ filter ?p r" .
    from ih have ih': "assemble str (Suc (pos + k))
        (all_matches False [P (T a One)] str (Suc (pos + k))) (\<lambda>m. []) = filter ?p r"
      by simp
    show ?thesis
      by (simp only: u assemble.simps f) (simp add: m_def tk ih')
  qed
qed

section \<open>The loops of the source end\<close>

lemma never_empty_blockTagPattern: "never_empty False blockTagPattern"
  unfolding blockTagPattern_def lit_def by (simp add: never_empty_One)

lemma never_empty_inlineTagPattern: "never_empty False inlineTagPattern"
  unfolding inlineTagPattern_def lit_def by (simp add: never_empty_One)

lemma never_empty_markdownImagePattern: "never_empty False markdownImagePattern"
  unfolding markdownImagePattern_def lit_def by (simp add: never_empty_One)

lemma never_empty_htmlImagePattern: "never_empty True htmlImagePattern"
  unfolding htmlImagePattern_def lit_def by (simp add: never_empty_One)

lemma detectLiquidTags_Some:
  "markdown \<noteq> [] \<Longrightarrow>
   detectLiquidTags markdown =
     (let bs = reported_blocks markdown (all_matches False blockTagPattern markdown 0);
          ins = reported_inlines markdown (map (\<lambda>m. (index m, length (matched m))) bs)
                  (all_matches False inlineTagPattern markdown 0);
          ts = sort_key lineNumber (map (block_entry markdown) bs @ map (inline_entry markdown) ins)
      in Some \<lparr>tags = ts, hasCrossPostUnsafe = list_ex (\<lambda>t. \<not> crossPostSafe t) ts\<rparr>)"
  unfolding detectLiquidTags_def
  by (simp add: exec_loop_all_matches never_empty_blockTagPattern never_empty_inlineTagPattern)

lemma detectLiquidTags_total: "\<exists>r. detectLiquidTags markdown = Some r"
  by (cases "markdown = []") (simp_all add: detectLiquidTags_Some Let_def, simp add: detectLiquidTags_def)

lemma detectLiquidTags_eq:
  "detectLiquidTags markdown =
     (let bs = reported_blocks markdown (all_matches False blockTagPattern markdown 0);
          ins = reported_inlines markdown (map (\<lambda>m. (index m, length (matched m))) bs)
                  (all_matches False inlineTagPattern markdown 0);
          ts = sort_key lineNumber (map (block_entry markdown) bs @ map (inline_entry markdown) ins)
      in Some \<lparr>tags = ts, hasCrossPostUnsafe = list_ex (\<lambda>t. \<not> crossPostSafe t) ts\<rparr>)"
proof (cases "markdown = []")
  case True
  then show ?thesis
    by (simp add: detectLiquidTags_def reported_blocks_def reported_inlines_def all_matches_Nil
          never_empty_blockTagPattern never_empty_inlineTagPattern)
next
  case False
  then show ?thesis by (rule detectLiquidTags_Some)
qed

lemma TAG_DEFS_unsafe: "list_all (\<lambda>e. \<not> safe (snd e)) TAG_DEFS"
  by (simp add: TAG_DEFS_def)

lemma safe_or_false_False: "\<not> safe_or_false (TAG_DEFS_get name)"
proof (cases "map_of TAG_DEFS name")
  case None
  then show ?thesis by (simp add: safe_or_false_def TAG_DEFS_get_def)
next
  case (Some d)
  then have "(name, d) \<in> set TAG_DEFS" by (rule map_of_SomeD)
  with TAG_DEFS_unsafe have "\<not> safe d" by (auto simp: list_all_iff)
  with Some show ?thesis by (simp add: safe_or_false_def TAG_DEFS_get_def)
qed

lemma line_images_Some:
  "line_images n l = Some (images_on_line n l)"
  unfolding line_images_def images_on_line_def
  by (simp add: exec_loop_all_matches never_empty_markdownImagePattern never_empty_htmlImagePattern)

lemma images_from_eq:
  "images_from i ls = Some (concat (map (\<lambda>(k, l). images_on_line (k + 1) l) (enumerate i ls)))"
  by (induction ls arbitrary: i) (simp_all add: line_images_Some)

lemma images_from_total: "\<exists>r. images_from i ls = Some r"
  by (simp add: images_from_eq)

lemma extractImageUrls_total: "\<exists>r. extractImageUrls markdown = Some r"
  unfolding extractImageUrls_def using images_from_total by simp

lemma isAbsolute_image_of:
  "isAbsolute (image_of n m) \<longleftrightarrow>
     startsWith_ci (url (image_of n m)) ''http://'' \<or> startsWith_ci (url (image_of n m)) ''https://''"
  by (simp add: image_of_def isAbsoluteUrl_iff)

lemma body_image_issues_total: "\<exists>r. body_image_issues ps = Some r"
proof (cases "truthy (body_markdown ps)")
  case None
  then show ?thesis by (simp add: body_image_issues_def)
next
  case (Some b)
  with extractImageUrls_total [of b] show ?thesis by (auto simp: body_image_issues_def)
qed

lemma liquid_issues_total: "\<exists>r. liquid_issues ps = Some r"
proof (cases "truthy (body_markdown ps)")
  case None
  then show ?thesis by (simp add: liquid_issues_def)
next
  case (Some b)
  with detectLiquidTags_total [of b] show ?thesis by (auto simp: liquid_issues_def)
qed

lemma validateArticle_Some:
  "\<exists>imageIssues liquidIssues.
     body_image_issues ps = Some imageIssues \<and> liquid_issues ps = Some liquidIssues
     \<and> validateArticle matter ps =
         Some \<lparr>valid = \<not> list_ex (\<lambda>issue. severity issue = error)
                          (presence_issues ps @ tag_issues ps @ cover_issues ps @ imageIssues
                           @ conflict_issues matter ps @ liquidIssues @ quality_issues ps),
                issues = presence_issues ps @ tag_issues ps @ cover_issues ps @ imageIssues
                           @ conflict_issues matter ps @ liquidIssues @ quality_issues ps\<rparr>"
proof -
  obtain a where a: "body_image_issues ps = Some a" using body_image_issues_total by blast
  obtain b where b: "liquid_issues ps = Some b" using liquid_issues_total by blast
  show ?thesis unfolding validateArticle_def by (simp add: a b Let_def)
qed

lemma empty_body_checks:
  assumes "body_markdown ps = Some []"
  shows "body_image_issues ps = Some []" "conflict_issues matter ps = []"
    "liquid_issues ps = Some []" "quality_issues ps = []"
  using assms
  by (simp_all add: body_image_issues_def conflict_issues_def liquid_issues_def
        quality_issues_def truthy_def)

section \<open>Fenced regions\<close>

lemma isInsideCodeFence_append:
  "isInsideCodeFence (rs @ [(a, b)]) o' \<longleftrightarrow> isInsideCodeFence rs o' \<or> (a \<le> o' \<and> o' < b)"
  by (auto simp: isInsideCodeFence_def list_ex_iff)

lemma fence_scan_ranges:
  assumes "ls \<noteq> []" and "inside \<longrightarrow> start \<le> off"
  shows "isInsideCodeFence
           (close_fence (fence_scan ls inside off start rs)
              (off + sum_list (map (\<lambda>l. Suc (length l)) ls) - 1)) o'
         \<longleftrightarrow> isInsideCodeFence rs o' \<or> (inside \<and> start \<le> o' \<and> o' < off)
             \<or> (off \<le> o' \<and> fenced_at ls inside (o' - off))"
  using assms
proof (induction ls arbitrary: inside off start rs rule: list_nonempty_induct)
  case (single l)
  then show ?case
    by (auto simp: close_fence_def isInsideCodeFence_append)
next
  case (cons l ls)
  have t: "off + sum_list (map (\<lambda>l. Suc (length l)) (l # ls)) - 1
           = (off + length l + 1) + sum_list (map (\<lambda>l. Suc (length l)) ls) - 1"
    by simp
  show ?case
  proof (cases "is_fence_line l")
    case True
    show ?thesis
    proof (cases inside)
      case True
      with \<open>is_fence_line l\<close> cons.prems
        cons.IH [of False start "off + length l + 1" "rs @ [(start, off + length l)]"]
      show ?thesis
        unfolding t by (auto simp: isInsideCodeFence_append cons.hyps)
    next
      case False
      with \<open>is_fence_line l\<close> cons.prems
        cons.IH [of True off "off + length l + 1" rs]
      show ?thesis
        unfolding t by (auto simp: cons.hyps)
    qed
  next
    case False
    with cons.prems cons.IH [of inside start "off + length l + 1" rs]
    show ?thesis
      unfolding t by (auto simp: cons.hyps)
  qed
qed

lemma split_char_nonempty: "split_char d s \<noteq> []"
  by (induction s) (auto simp: Let_def)

lemma split_char_total_length:
  "sum_list (map (\<lambda>l. Suc (length l)) (split_char d s)) = Suc (length s)"
proof (induction s)
  case Nil
  then show ?case by simp
next
  case (Cons c s)
  then show ?case
    using split_char_nonempty [of d s] by (cases "split_char d s") (auto simp: Let_def)
qed

text \<open>The ranges the code records are these regions.\<close>

lemma isInsideCodeFence_fenced_at:
  "isInsideCodeFence (getCodeFenceRanges text) o' = fenced_at (split_char NL text) False o'"
proof -
  have "getCodeFenceRanges text =
          close_fence (fence_scan (split_char NL text) False 0 0 [])
            (0 + sum_list (map (\<lambda>l. Suc (length l)) (split_char NL text)) - 1)"
    by (simp add: getCodeFenceRanges_def close_fence_def split_char_total_length)
  then show ?thesis
    using fence_scan_ranges [of "split_char NL text" False 0 0 "[]" o']
    by (simp add: split_char_nonempty isInsideCodeFence_def)
qed

section \<open>Words\<close>

lemma tokens_acc_skip: "tokens_acc [] (dropWhile isWhiteSpace s) = tokens_acc [] s"
  by (induction s) auto

lemma tokens_acc_ws: "list_all isWhiteSpace w \<Longrightarrow> tokens_acc cur w = (if cur = [] then [] else [cur])"
  by (induction w arbitrary: cur) auto

lemma tokens_acc_trailing:
  "list_all isWhiteSpace w \<Longrightarrow> tokens_acc cur (s @ w) = tokens_acc cur s"
  by (induction s arbitrary: cur) (auto simp: tokens_acc_ws)

lemma trim_decomp:
  "dropWhile isWhiteSpace s = trim s @ rev (takeWhile isWhiteSpace (rev (dropWhile isWhiteSpace s)))"
proof -
  let ?t = "dropWhile isWhiteSpace s"
  have "rev (takeWhile isWhiteSpace (rev ?t) @ dropWhile isWhiteSpace (rev ?t)) = ?t"
    by (simp only: takeWhile_dropWhile_id rev_rev_ident)
  then have "rev (dropWhile isWhiteSpace (rev ?t)) @ rev (takeWhile isWhiteSpace (rev ?t)) = ?t"
    by (simp only: rev_append)
  then show ?thesis by (simp only: trim_def trimStart_def)
qed

lemma ws_tokens_trim: "ws_tokens (trim s) = ws_tokens s"
proof -
  let ?w = "rev (takeWhile isWhiteSpace (rev (dropWhile isWhiteSpace s)))"
  have w: "list_all isWhiteSpace ?w"
    by (auto simp: list_all_iff dest: set_takeWhileD)
  have "ws_tokens s = tokens_acc [] (dropWhile isWhiteSpace s)"
    by (simp add: ws_tokens_def tokens_acc_skip)
  also have "\<dots> = tokens_acc [] (trim s @ ?w)" using trim_decomp [of s] by simp
  also have "\<dots> = tokens_acc [] (trim s)" using w by (rule tokens_acc_trailing)
  finally show ?thesis by (simp add: ws_tokens_def)
qed

lemma split_loop_tokens:
  "q \<le> length s \<Longrightarrow> list_all (\<lambda>c. \<not> isWhiteSpace c) (take q s) \<Longrightarrow>
   filter (\<lambda>w. 0 < length w) (split_loop False [P (T Esc_s Plus)] s q)
     = tokens_acc (take q s) (drop q s)"
proof (induction "False" "[P (T Esc_s Plus)]" s q rule: split_loop.induct)
  case (1 s q)
  show ?case
  proof (cases "length s \<le> q")
    case True
    then have "split_loop False [P (T Esc_s Plus)] s q = [s]"
      by (subst split_loop.simps) simp
    with True "1.prems" show ?thesis by simp
  next
    case False
    then obtain c rest where d: "drop q s = c # rest"
      by (cases "drop q s") auto
    have c: "c = s ! q" and r: "rest = drop (Suc q) s"
      using d False by (simp_all add: Cons_nth_drop_Suc [symmetric])
    have tk: "take (Suc q) s = take q s @ [c]" "drop (Suc q) s = rest"
      using False by (simp_all add: c r take_Suc_conv_app_nth)
    show ?thesis
    proof (cases "isWhiteSpace c")
      case ws: False
      then have m: "match_here False [P (T Esc_s Plus)] (drop q s) [] = []"
        by (simp add: match_here_ws_plus d)
      have u: "split_loop False [P (T Esc_s Plus)] s q = split_loop False [P (T Esc_s Plus)] s (q + 1)"
        using False m by (subst split_loop.simps) simp
      have la: "list_all (\<lambda>c. \<not> isWhiteSpace c) (take (q + 1) s)"
        using "1.prems" ws by (simp add: tk)
      have "filter (\<lambda>w. 0 < length w) (split_loop False [P (T Esc_s Plus)] s (q + 1))
              = tokens_acc (take (q + 1) s) (drop (q + 1) s)"
        using "1.hyps"(1) [OF False m _ la] False by simp
      with ws show ?thesis
        by (simp add: u d tk)
    next
      case ws: True
      obtain rs where g: "greedy_star isWhiteSpace rest = dropWhile isWhiteSpace rest # rs"
        using greedy_star_hd by blast
      let ?s' = "dropWhile isWhiteSpace rest"
      have m: "match_here False [P (T Esc_s Plus)] (drop q s) [] = (?s', []) # map (\<lambda>r. (r, [])) rs"
        by (simp only: match_here_ws_plus d) (simp add: ws g)
      define pre where "pre = take q s @ c # takeWhile isWhiteSpace rest"
      have "s = take q s @ drop q s" by simp
      also have "\<dots> = take q s @ c # (takeWhile isWhiteSpace rest @ ?s')"
        by (simp only: d takeWhile_dropWhile_id)
      finally have s: "s = pre @ ?s'" by (simp add: pre_def)
      have "pre \<noteq> []" by (simp add: pre_def)
      then have pos: "length s - length ?s' \<noteq> 0" by (subst s) simp
      have dr: "drop (length s - length ?s') s = ?s'"
        by (subst (1 2) s) simp
      have u: "split_loop False [P (T Esc_s Plus)] s q
                 = take q s # split_loop False [P (T Esc_s Plus)] ?s' 0"
        using False m pos by (subst split_loop.simps) (simp add: dr)
      have ih: "filter (\<lambda>w. 0 < length w) (split_loop False [P (T Esc_s Plus)] ?s' 0)
                  = tokens_acc [] ?s'"
        using "1.hyps"(3) [OF False m refl pos] by (simp add: dr)
      from ih show ?thesis
        by (simp add: u d ws tokens_acc_skip)
    qed
  qed
qed

text \<open>\<open>trim\<close>, \<open>split(/\s+/)\<close> and the filter give these words.\<close>

lemma content_words_tokens: "content_words s = ws_tokens s"
proof (cases "trim s = []")
  case True
  then have "ws_tokens s = []" using ws_tokens_trim [of s] by (simp add: ws_tokens_def)
  with True show ?thesis by (simp add: content_words_def split_rx_def)
next
  case False
  with split_loop_tokens [of 0 "trim s"] ws_tokens_trim [of s] show ?thesis
    by (simp add: content_words_def split_rx_def ws_tokens_def)
qed

lemma dropWhile_ws_Nil: "dropWhile isWhiteSpace s = [] \<longleftrightarrow> list_all isWhiteSpace s"
  by (induction s) auto

lemma blank_iff: "(s = [] \<or> trim s = []) \<longleftrightarrow> list_all isWhiteSpace s"
proof
  assume "s = [] \<or> trim s = []"
  then show "list_all isWhiteSpace s"
  proof
    assume "s = []" then show ?thesis by simp
  next
    assume "trim s = []"
    then have "dropWhile isWhiteSpace (rev (dropWhile isWhiteSpace s)) = []"
      by (simp only: trim_def trimStart_def rev_is_Nil_conv)
    then have "list_all isWhiteSpace (rev (dropWhile isWhiteSpace s))"
      by (simp only: dropWhile_ws_Nil)
    then have a: "list_all isWhiteSpace (dropWhile isWhiteSpace s)"
      by (simp only: list_all_rev)
    have "dropWhile isWhiteSpace s = []"
    proof (cases "dropWhile isWhiteSpace s")
      case Nil
      then show ?thesis .
    next
      case (Cons c cs)
      then have "\<not> isWhiteSpace c" by (metis hd_dropWhile list.sel(1) list.distinct(1))
      with a Cons show ?thesis by simp
    qed
    then show ?thesis by (simp only: dropWhile_ws_Nil)
  qed
next
  assume "list_all isWhiteSpace s"
  then have "dropWhile isWhiteSpace s = []" by (simp only: dropWhile_ws_Nil)
  then have "trim s = []" by (simp only: trim_def trimStart_def rev.simps dropWhile.simps)
  then show "s = [] \<or> trim s = []" by blast
qed

lemma strip_formatting_filter:
  "strip_formatting s = filter (\<lambda>c. c \<notin> set ''#*_~>-'') s"
  unfolding strip_formatting_def replace_all_def
  by (simp only: replace_single [of 0 s, simplified]) (intro filter_cong refl, auto)

section \<open>Merged parameters\<close>

lemma map_of_js_set: "map_of (js_set obj k v) = (map_of obj)(k \<mapsto> v)"
  by (induction obj) auto

lemma js_get_js_set: "js_get (js_set obj k v) k' = (if k' = k then v else js_get obj k')"
  by (simp add: js_get_def map_of_js_set)

lemma fst_override_entry: "fst (override_entry key val fmValue st) = js_set (fst st) key val"
  by (simp add: override_entry_def Let_def)

lemma override_other:
  "override ev entries st = Inr st' \<Longrightarrow> k \<notin> fst ` set entries \<Longrightarrow>
   js_get (fst st') k = js_get (fst st) k"
proof (induction entries arbitrary: st)
  case Nil
  then show ?case by simp
next
  case (Cons kv entries)
  show ?case
  proof (cases "snd kv = JUndefined")
    case True
    with Cons show ?thesis by simp
  next
    case False
    with Cons.prems(1) obtain fmValue where
      f: "front_matter_value ev (fst kv) = Inr fmValue"
      and o: "override ev entries (override_entry (fst kv) (snd kv) fmValue st) = Inr st'"
      by (auto split: sum.splits)
    from Cons.IH [OF o] Cons.prems(2) show ?thesis
      by (simp add: fst_override_entry js_get_js_set)
  qed
qed

lemma override_explicit:
  "override ev entries st = Inr st' \<Longrightarrow> distinct (map fst entries) \<Longrightarrow>
   (k, v) \<in> set entries \<Longrightarrow> v \<noteq> JUndefined \<Longrightarrow> js_get (fst st') k = v"
proof (induction entries arbitrary: st)
  case Nil
  then show ?case by simp
next
  case (Cons kv entries)
  show ?case
  proof (cases "kv = (k, v)")
    case True
    with Cons.prems have n: "k \<notin> fst ` set entries" by auto
    from True Cons.prems(1,4) obtain fmValue where
      o: "override ev entries (override_entry k v fmValue st) = Inr st'"
      by (auto split: sum.splits)
    from override_other [OF o n] show ?thesis
      by (simp add: fst_override_entry js_get_js_set)
  next
    case False
    with Cons.prems have in_rest: "(k, v) \<in> set entries" "distinct (map fst entries)" by auto
    from Cons.prems(1) obtain st0 where "override ev entries st0 = Inr st'"
      by (auto split: sum.splits if_splits)
    from Cons.IH [OF this in_rest(2) in_rest(1) Cons.prems(4)] show ?thesis .
  qed
qed

text \<open>When the front matter is an object, \<open>in\<close> does not throw and the two loops end normally.\<close>

lemma has_property_object: "is_object ev \<Longrightarrow> \<exists>b. has_property k ev = Inr b"
  by (cases ev) auto

lemma seed_object: "is_object ev \<Longrightarrow> \<exists>m. seed ev fs m0 = Inr m"
proof (induction fs arbitrary: m0)
  case Nil
  then show ?case by simp
next
  case (Cons f fs)
  from has_property_object [OF Cons.prems, of f] obtain b where "has_property f ev = Inr b" ..
  then obtain m1 where "seed_field ev f m0 = Inr m1" by (simp add: seed_field_def)
  with Cons.IH [OF Cons.prems, of m1] show ?case by simp
qed

lemma front_matter_value_object: "is_object ev \<Longrightarrow> \<exists>x. front_matter_value ev key = Inr x"
proof -
  assume o: "is_object ev"
  from has_property_object [OF o, of "if key = ''main_image'' then ''cover_image'' else key"]
  obtain b where b: "has_property (if key = ''main_image'' then ''cover_image'' else key) ev = Inr b" ..
  from has_property_object [OF o, of key] obtain c where c: "has_property key ev = Inr c" ..
  show ?thesis
    unfolding front_matter_value_def Let_def
    by (cases b; cases c) (simp_all add: b c)
qed

lemma override_object: "is_object ev \<Longrightarrow> \<exists>st'. override ev entries st = Inr st'"
proof (induction entries arbitrary: st)
  case Nil
  then show ?case by simp
next
  case (Cons kv entries)
  from front_matter_value_object [OF Cons.prems, of "fst kv"] obtain x where
    "front_matter_value ev (fst kv) = Inr x" ..
  with Cons.IH [OF Cons.prems] show ?case by simp
qed

lemma has_property_primitive: "\<not> is_object ev \<Longrightarrow> \<exists>e. has_property k ev = Inl e"
  by (cases ev) simp_all

lemma seed_primitive: "\<not> is_object ev \<Longrightarrow> \<exists>e. seed ev (f # fs) m0 = Inl e"
proof -
  assume "\<not> is_object ev"
  from has_property_primitive [OF this, of f] obtain e where "has_property f ev = Inl e" ..
  then show ?thesis by (simp add: seed_field_def)
qed

lemma mergeAndNormalize_primitive:
  assumes "hasFrontMatter (parseFrontMatter matter doc)"
    and "\<not> is_object (extractedValues (parseFrontMatter matter doc))"
  shows "\<exists>e. mergeAndNormalize matter (Some doc) jsonParams = Inl e"
proof -
  from assms(1) have d: "doc \<noteq> []" by (auto simp: parseFrontMatter_def)
  from seed_primitive [OF assms(2), of "''title''" "tl KNOWN_FIELDS" "[]"] obtain e where
    "seed (extractedValues (parseFrontMatter matter doc)) KNOWN_FIELDS [] = Inl e"
    by (auto simp: KNOWN_FIELDS_def)
  with d assms(1) show ?thesis
    by (simp add: mergeAndNormalize_def Let_def)
qed

lemma mergeAndNormalize_Inr:
  assumes "hasFrontMatter (parseFrontMatter matter doc)"
    and "mergeAndNormalize matter (Some doc) jsonParams = Inr r"
  shows "\<exists>seeded st'.
           override (extractedValues (parseFrontMatter matter doc)) jsonParams (seeded, []) = Inr st'
           \<and> params r = fst st'"
proof -
  from assms(1) have "doc \<noteq> []" by (auto simp: parseFrontMatter_def)
  with assms show ?thesis
    by (auto simp: mergeAndNormalize_def Let_def split: sum.splits prod.splits) blast
qed

lemma mergeAndNormalize_object:
  assumes "hasFrontMatter (parseFrontMatter matter doc)"
    and "is_object (extractedValues (parseFrontMatter matter doc))"
  shows "\<exists>r. mergeAndNormalize matter (Some doc) jsonParams = Inr r"
proof -
  from assms(1) have d: "doc \<noteq> []" by (auto simp: parseFrontMatter_def)
  from seed_object [OF assms(2)] obtain seeded where
    s: "seed (extractedValues (parseFrontMatter matter doc)) KNOWN_FIELDS [] = Inr seeded" ..
  from override_object [OF assms(2)] obtain st' where
    o: "override (extractedValues (parseFrontMatter matter doc)) jsonParams (seeded, []) = Inr st'" ..
  from d assms(1) s o show ?thesis
    by (simp add: mergeAndNormalize_def Let_def split: prod.splits)
qed

section \<open>The claims\<close>

text \<open>
  Claim C1.  When the body has front matter, \<open>mergeAndNormalize\<close> returns whenever the front
  matter is an object, and the merged parameters it returns map every field of the
  explicit parameters (a record of plain property names) whose value is not \<open>undefined\<close> to
  that value, whether or not a conflict was recorded.  (When the front matter is not an
  object no parameters are returned: the call throws.)  For the example of the
  specification (the library parses its front matter as \<open>title: FM Title\<close> and leaves
  \<open># Content\<close>), the merged title is the explicit one, there is exactly one conflict, on
  \<open>title\<close>, and the trimmed body is \<open># Content\<close>.
\<close>

theorem mergeAndNormalize_explicit_wins:
  "(plain_keys jsonParams \<and> hasFrontMatter (parseFrontMatter matter doc)
      \<and> (k, v) \<in> set jsonParams \<and> v \<noteq> JUndefined
    \<longrightarrow> (is_object (extractedValues (parseFrontMatter matter doc))
          \<longrightarrow> (\<exists>r. mergeAndNormalize matter (Some doc) jsonParams = Inr r
                   \<and> js_get (params r) k = v))
        \<and> (\<not> is_object (extractedValues (parseFrontMatter matter doc))
          \<longrightarrow> (\<exists>e. mergeAndNormalize matter (Some doc) jsonParams = Inl e)))
   \<and> (matter example_doc
        = Inr \<lparr>data = Mapping [(''title'', JStr ''FM Title'')], content = ''# Content''\<rparr>
    \<longrightarrow> (\<exists>r. mergeAndNormalize matter (Some example_doc) [(''title'', JStr ''JSON Title'')] = Inr r
             \<and> js_get (params r) ''title'' = JStr ''JSON Title''
             \<and> map field (conflicts r) = [''title'']
             \<and> trim (body r) = ''# Content''))"
proof (intro conjI impI)
  assume a: "plain_keys jsonParams \<and> hasFrontMatter (parseFrontMatter matter doc)
      \<and> (k, v) \<in> set jsonParams \<and> v \<noteq> JUndefined"
  assume o: "is_object (extractedValues (parseFrontMatter matter doc))"
  from a have h: "hasFrontMatter (parseFrontMatter matter doc)" by simp
  from a have d: "distinct (map fst jsonParams)" by (simp add: plain_keys_def)
  from mergeAndNormalize_object [OF h o] obtain r where
    r: "mergeAndNormalize matter (Some doc) jsonParams = Inr r" ..
  from mergeAndNormalize_Inr [OF h r] obtain seeded st' where
    st: "override (extractedValues (parseFrontMatter matter doc)) jsonParams (seeded, []) = Inr st'"
        "params r = fst st'"
    by blast
  from override_explicit [OF st(1) d] a st(2) have "js_get (params r) k = v" by simp
  with r show "\<exists>r. mergeAndNormalize matter (Some doc) jsonParams = Inr r \<and> js_get (params r) k = v"
    by blast
next
  assume a: "plain_keys jsonParams \<and> hasFrontMatter (parseFrontMatter matter doc)
      \<and> (k, v) \<in> set jsonParams \<and> v \<noteq> JUndefined"
  assume n: "\<not> is_object (extractedValues (parseFrontMatter matter doc))"
  from a have h: "hasFrontMatter (parseFrontMatter matter doc)" by simp
  from mergeAndNormalize_primitive [OF h n]
  show "\<exists>e. mergeAndNormalize matter (Some doc) jsonParams = Inl e" .
next
  assume m: "matter example_doc
        = Inr \<lparr>data = Mapping [(''title'', JStr ''FM Title'')], content = ''# Content''\<rparr>"
  have t: "trim example_doc \<noteq> []" "example_doc \<noteq> []"
    by (simp_all add: example_doc_def trim_def trimStart_def isWhiteSpace_def)
  have r: "mergeAndNormalize matter (Some example_doc) [(''title'', JStr ''JSON Title'')] =
     Inr \<lparr>body = ''# Content'', params = [(''title'', JStr ''JSON Title'')],
          conflicts = [\<lparr>field = ''title'', frontMatterValue = JStr ''FM Title'',
                        jsonValue = JStr ''JSON Title''\<rparr>]\<rparr>"
    using m t
    by (simp add: mergeAndNormalize_def parseFrontMatter_def KNOWN_FIELDS_def seed_field_def
          front_matter_value_def override_entry_def js_in_def js_get_def Let_def)
  have "trim ''# Content'' = ''# Content''"
    by (simp add: trim_def trimStart_def isWhiteSpace_def)
  with r show "\<exists>r. mergeAndNormalize matter (Some example_doc) [(''title'', JStr ''JSON Title'')] = Inr r
             \<and> js_get (params r) ''title'' = JStr ''JSON Title''
             \<and> map field (conflicts r) = [''title'']
             \<and> trim (body r) = ''# Content''"
    by (simp add: js_get_def)
qed

text \<open>The example itself, the library's answer being the one stated.\<close>

theorem mergeAndNormalize_explicit_wins_witness:
  "plain_keys [(''title'', JStr ''JSON Title'')]
   \<and> hasFrontMatter (parseFrontMatter
         (\<lambda>d. Inr \<lparr>data = Mapping [(''title'', JStr ''FM Title'')], content = ''# Content''\<rparr>)
         example_doc)
   \<and> is_object (extractedValues (parseFrontMatter
         (\<lambda>d. Inr \<lparr>data = Mapping [(''title'', JStr ''FM Title'')], content = ''# Content''\<rparr>)
         example_doc))
   \<and> (\<exists>r. mergeAndNormalize
         (\<lambda>d. Inr \<lparr>data = Mapping [(''title'', JStr ''FM Title'')], content = ''# Content''\<rparr>)
         (Some example_doc) [(''title'', JStr ''JSON Title'')] = Inr r
        \<and> js_get (params r) ''title'' = JStr ''JSON Title''
        \<and> map field (conflicts r) = [''title'']
        \<and> trim (body r) = ''# Content'')"
proof -
  have p: "plain_keys [(''title'', JStr ''JSON Title'')]"
    by (simp add: plain_keys_def object_prototype_names_def)
  have h: "hasFrontMatter (parseFrontMatter
         (\<lambda>d. Inr \<lparr>data = Mapping [(''title'', JStr ''FM Title'')], content = ''# Content''\<rparr>)
         example_doc)"
    by (simp add: parseFrontMatter_def example_doc_def trim_def trimStart_def isWhiteSpace_def)
  have o: "is_object (extractedValues (parseFrontMatter
         (\<lambda>d. Inr \<lparr>data = Mapping [(''title'', JStr ''FM Title'')], content = ''# Content''\<rparr>)
         example_doc))"
    by (simp add: parseFrontMatter_def example_doc_def trim_def trimStart_def isWhiteSpace_def)
  from p h o mergeAndNormalize_explicit_wins
         [where jsonParams = "[(''title'', JStr ''JSON Title'')]" and doc = example_doc
            and matter = "\<lambda>d. Inr \<lparr>data = Mapping [(''title'', JStr ''FM Title'')], content = ''# Content''\<rparr>"
            and k = "''title''" and v = "JStr ''JSON Title''"]
  show ?thesis by simp
qed

text \<open>
  Claim C2 does not hold of the code: \<open>validateArticle\<close> compares the \<open>String\<close> forms of the
  two tag values and does not normalise them.  The front matter lists the tags
  \<open>javascript\<close> and \<open>typescript\<close> and the parameter is \<open>javascript, typescript\<close>: the normalised
  values are equal and \<open>mergeAndNormalize\<close> records no conflict, but \<open>validateArticle\<close> reports
  a \<open>front_matter_conflict\<close> between \<open>javascript,typescript\<close> and \<open>javascript, typescript\<close>.
\<close>

theorem validateArticle_compares_tags_unnormalized:
  "normalizeTags (JArr [JStr ''javascript'', JStr ''typescript''])
     = normalizeTags (JStr ''javascript, typescript'')
   \<and> mergeAndNormalize
        (\<lambda>d. Inr \<lparr>data = Mapping [(''tags'', JArr [JStr ''javascript'', JStr ''typescript''])],
                    content = ''Content''\<rparr>)
        (Some tags_doc) [(''tags'', JStr ''javascript, typescript'')]
       = Inr \<lparr>body = ''Content'', params = [(''tags'', JStr ''javascript, typescript'')],
              conflicts = []\<rparr>
   \<and> validateArticle
        (\<lambda>d. Inr \<lparr>data = Mapping [(''tags'', JArr [JStr ''javascript'', JStr ''typescript''])],
                    content = ''Content''\<rparr>)
        (no_params\<lparr>body_markdown := Some tags_doc,
                    tags_param := Some (TagString ''javascript, typescript'')\<rparr>) =
       Some \<lparr>valid = True,
              issues =
                [\<lparr>severity = warning, code = front_matter_conflict,
                  message = ''Front matter '' @ [DQ] @ ''tags'' @ [DQ] @ '' value '' @ [DQ]
                    @ ''javascript,typescript'' @ [DQ] @ '' conflicts with parameter '' @ [DQ]
                    @ ''javascript, typescript'' @ [DQ] @ ''. Parameter value will be used.'',
                  line = None\<rparr>,
                 \<lparr>severity = warning, code = validation_failed,
                  message = ''Article body appears to lack substantial content.'',
                  line = None\<rparr>]\<rparr>"
  by code_simp

text \<open>
  Claim C3.  For every parameter set \<open>validateArticle\<close> returns, and \<open>valid\<close> is true if and
  only if no issue of the result has severity \<open>error\<close>; warnings and infos do not count.
\<close>

theorem validateArticle_valid_iff_no_error:
  "\<exists>r. validateArticle matter ps = Some r
       \<and> (valid r \<longleftrightarrow> (\<forall>issue \<in> set (issues r). severity issue \<noteq> error))"
proof -
  from validateArticle_Some [of ps matter] obtain r where
    r: "validateArticle matter ps = Some r"
       "valid r = (\<not> list_ex (\<lambda>issue. severity issue = error) (issues r))"
    by force
  from r(2) have "valid r \<longleftrightarrow> (\<forall>issue \<in> set (issues r). severity issue \<noteq> error)"
    by (simp add: list_ex_iff)
  with r(1) show ?thesis by blast
qed

text \<open>
  \<open>validateArticle({})\<close>: one issue, the presence error, and \<open>valid\<close> is false.  A title with
  a short body: one issue, a warning, and \<open>valid\<close> is true.
\<close>

theorem validateArticle_valid_iff_no_error_witness:
  "validateArticle (\<lambda>b. Inr \<lparr>data = Mapping [], content = b\<rparr>) no_params =
     Some \<lparr>valid = False,
            issues = [\<lparr>severity = error, code = validation_failed,
                        message = ''Article must have a title or body_markdown.'',
                        line = None\<rparr>]\<rparr>
   \<and> validateArticle (\<lambda>b. Inr \<lparr>data = Mapping [], content = b\<rparr>)
         (no_params\<lparr>title := Some ''Test'', body_markdown := Some ''Short.''\<rparr>) =
     Some \<lparr>valid = True,
            issues = [\<lparr>severity = warning, code = validation_failed,
                        message = ''Article body appears to lack substantial content.'',
                        line = None\<rparr>]\<rparr>"
proof -
  have "validateArticle (\<lambda>b. Inr \<lparr>data = Mapping [], content = b\<rparr>) no_params =
     Some \<lparr>valid = False,
            issues = [\<lparr>severity = error, code = validation_failed,
                        message = ''Article must have a title or body_markdown.'',
                        line = None\<rparr>]\<rparr>"
    by code_simp
  moreover have "validateArticle (\<lambda>b. Inr \<lparr>data = Mapping [], content = b\<rparr>)
         (no_params\<lparr>title := Some ''Test'', body_markdown := Some ''Short.''\<rparr>) =
     Some \<lparr>valid = True,
            issues = [\<lparr>severity = warning, code = validation_failed,
                        message = ''Article body appears to lack substantial content.'',
                        line = None\<rparr>]\<rparr>"
    by code_simp
  ultimately show ?thesis
    using validateArticle_valid_iff_no_error [of "\<lambda>b. Inr \<lparr>data = Mapping [], content = b\<rparr>" no_params]
    by blast
qed

text \<open>
  Claim C4.  \<open>detectLiquidTags\<close> returns for every document, and its tags are the entries of
  the block matches and of the inline matches that it keeps: a block match whose start
  offset is not in a fenced region, and an inline match whose start offset is not in a
  fenced region, whose name does not begin with \<open>end\<close> and which does not start inside a kept
  block.  So no reported match, block or inline, starts inside a fenced region, a fence
  left open extending to the end of the document.
\<close>

theorem detectLiquidTags_skips_fences:
  "\<exists>r bs ins.
     detectLiquidTags markdown = Some r
     \<and> bs = filter (\<lambda>m. \<not> fenced_at (split_char NL markdown) False (index m))
               (all_matches False blockTagPattern markdown 0)
     \<and> ins = filter (\<lambda>m. \<not> fenced_at (split_char NL markdown) False (index m)
                          \<and> \<not> startsWith (toLowerCase (capture (groups m) 1)) ''end''
                          \<and> \<not> isPartOfBlock (map (\<lambda>m. (index m, length (matched m))) bs) (index m))
                (all_matches False inlineTagPattern markdown 0)
     \<and> tags r = sort_key lineNumber (map (block_entry markdown) bs @ map (inline_entry markdown) ins)
     \<and> list_all (\<lambda>m. \<not> fenced_at (split_char NL markdown) False (index m)) (bs @ ins)"
  by (simp add: detectLiquidTags_eq Let_def reported_blocks_def reported_inlines_def
        isInsideCodeFence_fenced_at list_all_iff) auto

text \<open>
  A fence around \<open>{% youtube x %}\<close>: the tag matches at offset 4, which is fenced, and the
  report is empty.
\<close>

theorem detectLiquidTags_skips_fences_witness:
  "detectLiquidTags (''```'' @ [NL] @ ''{% youtube x %}'' @ [NL] @ ''```'') =
     Some \<lparr>tags = [], hasCrossPostUnsafe = False\<rparr>
   \<and> map index (all_matches False inlineTagPattern (''```'' @ [NL] @ ''{% youtube x %}'' @ [NL] @ ''```'') 0) = [4]
   \<and> fenced_at (split_char NL (''```'' @ [NL] @ ''{% youtube x %}'' @ [NL] @ ''```'')) False 4"
proof -
  have "detectLiquidTags (''```'' @ [NL] @ ''{% youtube x %}'' @ [NL] @ ''```'') =
     Some \<lparr>tags = [], hasCrossPostUnsafe = False\<rparr>"
    by code_simp
  moreover have "map index (all_matches False inlineTagPattern (''```'' @ [NL] @ ''{% youtube x %}'' @ [NL] @ ''```'') 0) = [4]"
    by code_simp
  moreover have "fenced_at (split_char NL (''```'' @ [NL] @ ''{% youtube x %}'' @ [NL] @ ''```'')) False 4"
    by code_simp
  ultimately show ?thesis
    using detectLiquidTags_skips_fences [of "''```'' @ [NL] @ ''{% youtube x %}'' @ [NL] @ ''```''"]
    by blast
qed

text \<open>
  Claim C5 does not hold of the code: only the offset at which a match starts is tested
  against the fences.  The example of the claim, a fence around \<open>{% youtube abc %}\<close>, is
  left as it is.  But in \<open>fenced_tag_doc\<close>, whose fence is the range from 13 to 52, the tags
  \<open>{% enduser %}\<close> and \<open>{% youtube abc %}\<close> stand inside the fence; the block from
  \<open>{% user a %}\<close> to \<open>{% enduser %}\<close> starts outside, so it is replaced, end tag and opening
  fence with it, and the second pass converts \<open>{% youtube abc %}\<close>.  In \<open>fenced_end_doc\<close> the
  \<open>{% enddetails %}\<close> inside the fence is rewritten to \<open></details>\<close>.
\<close>

theorem stripLiquidTags_rewrites_fenced_tags:
  "stripLiquidTags (''```'' @ [NL] @ ''{% youtube abc %}'' @ [NL] @ ''```'')
     = Inr (''```'' @ [NL] @ ''{% youtube abc %}'' @ [NL] @ ''```'')
   \<and> getCodeFenceRanges fenced_tag_doc = [(13, 52)]
   \<and> take 13 (drop 17 fenced_tag_doc) = ''{% enduser %}''
   \<and> isInsideCodeFence (getCodeFenceRanges fenced_tag_doc) 17
   \<and> take 17 (drop 31 fenced_tag_doc) = ''{% youtube abc %}''
   \<and> isInsideCodeFence (getCodeFenceRanges fenced_tag_doc) 31
   \<and> stripLiquidTags fenced_tag_doc =
       Inr (''@a'' @ [NL] @ ''https://www.youtube.com/watch?v=abc'' @ [NL] @ ''```'')
   \<and> take 16 (drop 20 fenced_end_doc) = ''{% enddetails %}''
   \<and> isInsideCodeFence (getCodeFenceRanges fenced_end_doc) 20
   \<and> stripLiquidTags fenced_end_doc =
       Inr (''<details>'' @ [NL] @ ''<summary>T</summary>'' @ [NL, NL] @ ''```'' @ [NL]
            @ ''</details>'' @ [NL] @ ''```'')"
  by code_simp

text \<open>
  Claim C6, as stated, fails: the occurrences of one line are not recorded in the order in
  which they stand in the line.  On \<open>mixed_line\<close> the HTML image at offset 0 is recorded after
  the markdown image at offset 18.
\<close>

theorem extractImageUrls_mixed_line:
  "recorded_offsets mixed_line = [18, 0]
   \<and> extractImageUrls mixed_line =
       Some [\<lparr>url = ''b.png'', imageLine = 1, isAbsolute = False\<rparr>,
             \<lparr>url = ''a.png'', imageLine = 1, isAbsolute = False\<rparr>]"
  by code_simp

text \<open>
  Claim C6, amended.  \<open>extractImageUrls\<close> returns for every document; the lines are numbered
  from 1 and taken in document order; the references of a line are its markdown images
  from left to right followed by its HTML images (tag and attribute matched without regard
  to case) from left to right; and \<open>isAbsolute\<close> of a reference is true if and only if its
  URL begins with \<open>http://\<close> or \<open>https://\<close>, compared without regard to case.
\<close>

theorem extractImageUrls_order:
  "\<exists>rs. extractImageUrls markdown = Some rs
      \<and> rs = (if markdown = [] then []
               else concat (map (\<lambda>(k, l). images_on_line (k + 1) l)
                                (enumerate 0 (split_char NL markdown))))
      \<and> list_all (\<lambda>r. isAbsolute r \<longleftrightarrow>
                        startsWith_ci (url r) ''http://'' \<or> startsWith_ci (url r) ''https://'') rs
      \<and> sorted_wrt (<) (map index (all_matches False markdownImagePattern l 0))
      \<and> sorted_wrt (<) (map index (all_matches True htmlImagePattern l 0))"
proof -
  let ?rs = "if markdown = [] then []
               else concat (map (\<lambda>(k, l). images_on_line (k + 1) l)
                                (enumerate 0 (split_char NL markdown)))"
  have e: "extractImageUrls markdown = Some ?rs"
    by (simp add: extractImageUrls_def images_from_eq)
  have "list_all (\<lambda>r. isAbsolute r \<longleftrightarrow>
                        startsWith_ci (url r) ''http://'' \<or> startsWith_ci (url r) ''https://'') ?rs"
    unfolding list_all_iff images_on_line_def using isAbsolute_image_of by auto
  with e all_matches_sorted show ?thesis by blast
qed

text \<open>A relative markdown image on line 1 and an absolute HTML image on line 2.\<close>

theorem extractImageUrls_order_witness:
  "extractImageUrls (''![](./local.png)'' @ [NL] @ ''<IMG SRC='' @ [DQ] @ ''https://x/i.png'' @ [DQ] @ ''>'') =
     Some [\<lparr>url = ''./local.png'', imageLine = 1, isAbsolute = False\<rparr>,
           \<lparr>url = ''https://x/i.png'', imageLine = 2, isAbsolute = True\<rparr>]
   \<and> startsWith_ci ''https://x/i.png'' ''https://''"
proof -
  have "extractImageUrls (''![](./local.png)'' @ [NL] @ ''<IMG SRC='' @ [DQ] @ ''https://x/i.png'' @ [DQ] @ ''>'') =
     Some [\<lparr>url = ''./local.png'', imageLine = 1, isAbsolute = False\<rparr>,
           \<lparr>url = ''https://x/i.png'', imageLine = 2, isAbsolute = True\<rparr>]"
    by code_simp
  moreover have "startsWith_ci ''https://x/i.png'' ''https://''"
    by code_simp
  ultimately show ?thesis
    using extractImageUrls_order [of "''![](./local.png)'' @ [NL] @ ''<IMG SRC='' @ [DQ] @ ''https://x/i.png'' @ [DQ] @ ''>''" "[]"]
    by simp
qed

text \<open>
  Claim C7 does not hold of the code: only a block on which the library throws degrades
  to the result for no front matter.  The metadata block of \<open>scalar_doc\<close> is malformed, the
  one word \<open>hello\<close> and no key/value line; the library parses it without complaint, to the
  string \<open>hello\<close>, and \<open>parseFrontMatter\<close> reports front matter, with that string as the
  extracted values (which are declared a record) and \<open>body\<close> as the clean body.  On this
  result \<open>mergeAndNormalize\<close> throws, at \<open>'title' in extractedValues\<close>.  A block of list
  items is kept in the same way.
\<close>

theorem parseFrontMatter_keeps_scalar_block:
  "parseFrontMatter (\<lambda>d. Inr \<lparr>data = Text ''hello'', content = ''body''\<rparr>) scalar_doc
     = \<lparr>cleanBody = ''body'', extractedValues = Text ''hello'', hasFrontMatter = True\<rparr>
   \<and> mergeAndNormalize (\<lambda>d. Inr \<lparr>data = Text ''hello'', content = ''body''\<rparr>)
         (Some scalar_doc) []
     = Inl (TypeError (''Cannot use '' @ [SQ] @ ''in'' @ [SQ] @ '' operator to search for ''
                       @ [SQ] @ ''title'' @ [SQ] @ '' in hello''))
   \<and> parseFrontMatter
         (\<lambda>d. Inr \<lparr>data = Sequence [JStr ''a'', JStr ''b''], content = ''body''\<rparr>)
         (''---'' @ [NL] @ ''- a'' @ [NL] @ ''- b'' @ [NL] @ ''---'' @ [NL] @ ''body'')
     = \<lparr>cleanBody = ''body'', extractedValues = Sequence [JStr ''a'', JStr ''b''],
        hasFrontMatter = True\<rparr>"
  by code_simp

text \<open>
  Claim C8 does not hold of the code: the first replacement removes the text from three
  backticks to the next three backticks, wherever they stand, and not the fenced code
  blocks.  In \<open>open_fence_doc\<close> the fence is never closed, so every offset of the document
  lies in a fenced region (the scanner of the liquid tags records the range from 0 to the
  end); nothing is removed, and the fence marker and the eleven words of code are counted:
  the document is substantial.  In \<open>inner_fence_doc\<close> the fence is closed and again every
  offset is fenced; the replacement stops at the backticks in the middle of the line, and
  the ten words after them and the closing fence are counted.
\<close>

theorem isSubstantialContent_counts_fenced_text:
  "getCodeFenceRanges open_fence_doc = [(0, length open_fence_doc)]
   \<and> list_all (fenced_at (split_char NL open_fence_doc) False) [0..<length open_fence_doc]
   \<and> strip_code_blocks open_fence_doc = open_fence_doc
   \<and> content_words (stripped_text open_fence_doc)
       = [''```'', ''one'', ''two'', ''three'', ''four'', ''five'', ''six'', ''seven'', ''eight'',
          ''nine'', ''ten'', ''eleven'']
   \<and> isSubstantialContent open_fence_doc
   \<and> getCodeFenceRanges inner_fence_doc = [(0, length inner_fence_doc)]
   \<and> list_all (fenced_at (split_char NL inner_fence_doc) False) [0..<length inner_fence_doc]
   \<and> strip_code_blocks inner_fence_doc
       = '' one two three four five six seven eight nine ten'' @ [NL] @ ''```''
   \<and> content_words (stripped_text inner_fence_doc)
       = [''one'', ''two'', ''three'', ''four'', ''five'', ''six'', ''seven'', ''eight'',
          ''nine'', ''ten'', ''```'']
   \<and> isSubstantialContent inner_fence_doc"
  by code_simp

text \<open>
  Claim C9.  Every entry of the static tag table is marked unsafe, a tag name the table
  does not define reads as unsafe, and so every match that \<open>detectLiquidTags\<close> reports has
  \<open>crossPostSafe = false\<close>; the report's \<open>hasCrossPostUnsafe\<close> is true exactly when its list
  of tags is not empty.  The call returns for every document.
\<close>

theorem detectLiquidTags_never_safe:
  "list_all (\<lambda>e. \<not> safe (snd e)) TAG_DEFS
   \<and> \<not> safe_or_false (TAG_DEFS_get name)
   \<and> (\<exists>r. detectLiquidTags markdown = Some r
          \<and> list_all (\<lambda>t. \<not> crossPostSafe t) (tags r)
          \<and> hasCrossPostUnsafe r = (tags r \<noteq> []))"
proof -
  have "\<exists>r. detectLiquidTags markdown = Some r
          \<and> list_all (\<lambda>t. \<not> crossPostSafe t) (tags r)
          \<and> hasCrossPostUnsafe r = (tags r \<noteq> [])"
  proof (cases "markdown = []")
    case True
    then show ?thesis by (simp add: detectLiquidTags_def)
  next
    case False
    define bs where "bs = reported_blocks markdown (all_matches False blockTagPattern markdown 0)"
    define ins where "ins = reported_inlines markdown (map (\<lambda>m. (index m, length (matched m))) bs)
                  (all_matches False inlineTagPattern markdown 0)"
    define ts where "ts = sort_key lineNumber (map (block_entry markdown) bs @ map (inline_entry markdown) ins)"
    have r: "detectLiquidTags markdown = Some \<lparr>tags = ts, hasCrossPostUnsafe = list_ex (\<lambda>t. \<not> crossPostSafe t) ts\<rparr>"
      using False by (simp add: detectLiquidTags_Some Let_def bs_def ins_def ts_def)
    have all: "list_all (\<lambda>t. \<not> crossPostSafe t) ts"
      unfolding ts_def list_all_iff
      by (auto simp: block_entry_def inline_entry_def safe_or_false_False)
    then have "list_ex (\<lambda>t. \<not> crossPostSafe t) ts = (ts \<noteq> [])"
      by (cases ts) (auto simp: list_ex_iff list_all_iff)
    with r all show ?thesis by simp
  qed
  with TAG_DEFS_unsafe safe_or_false_False show ?thesis by blast
qed

text \<open>
  The document \<open>{% youtube abc123 %}\<close>: one match, not safe, and the flag is set.
\<close>

theorem detectLiquidTags_never_safe_witness:
  "detectLiquidTags ''{% youtube abc123 %}'' =
     Some \<lparr>tags = [\<lparr>tag = ''youtube'', argument = ''abc123'',
                       fullMatch = ''{% youtube abc123 %}'', lineNumber = 1,
                       crossPostSafe = False, hasEndTag = False\<rparr>],
            hasCrossPostUnsafe = True\<rparr>
   \<and> \<not> safe_or_false (TAG_DEFS_get ''youtube'')"
proof -
  have "detectLiquidTags ''{% youtube abc123 %}'' =
     Some \<lparr>tags = [\<lparr>tag = ''youtube'', argument = ''abc123'',
                       fullMatch = ''{% youtube abc123 %}'', lineNumber = 1,
                       crossPostSafe = False, hasEndTag = False\<rparr>],
            hasCrossPostUnsafe = True\<rparr>"
    by code_simp
  with detectLiquidTags_never_safe [of "''youtube''" "''{% youtube abc123 %}''"]
  show ?thesis by simp
qed

text \<open>
  Claim C10.  An empty title and an empty body count as absent: with no title (or the
  empty one) and no body (or the empty one) the first issue is the presence error and the
  result is not valid; and when the body is the empty string the checks of the body (its
  images, the front-matter conflicts, the liquid tags, the content size) give no issue, so
  the issues are those of presence, tags and cover image, as without a body.
\<close>

theorem validateArticle_empty_as_absent:
  "((title ps = None \<or> title ps = Some []) \<and> (body_markdown ps = None \<or> body_markdown ps = Some [])
      \<longrightarrow> (\<exists>r. validateArticle matter ps = Some r \<and> \<not> valid r
              \<and> hd (issues r) = \<lparr>severity = error, code = validation_failed,
                     message = ''Article must have a title or body_markdown.'', line = None\<rparr>
              \<and> issues r \<noteq> []))
   \<and> (body_markdown ps = Some []
      \<longrightarrow> body_image_issues ps = Some [] \<and> conflict_issues matter ps = []
          \<and> liquid_issues ps = Some [] \<and> quality_issues ps = []
          \<and> (\<exists>r. validateArticle matter ps = Some r
                 \<and> issues r = presence_issues ps @ tag_issues ps @ cover_issues ps)
          \<and> validateArticle matter ps = validateArticle matter (ps\<lparr>body_markdown := None\<rparr>))"
proof (intro conjI impI)
  assume a: "(title ps = None \<or> title ps = Some []) \<and> (body_markdown ps = None \<or> body_markdown ps = Some [])"
  then have p: "presence_issues ps = [\<lparr>severity = error, code = validation_failed,
                     message = ''Article must have a title or body_markdown.'', line = None\<rparr>]"
    by (auto simp: presence_issues_def truthy_def)
  from validateArticle_Some [of ps matter] p
  show "\<exists>r. validateArticle matter ps = Some r \<and> \<not> valid r
              \<and> hd (issues r) = \<lparr>severity = error, code = validation_failed,
                     message = ''Article must have a title or body_markdown.'', line = None\<rparr>
              \<and> issues r \<noteq> []"
    by auto
next
  assume b: "body_markdown ps = Some []"
  note e = empty_body_checks [OF b]
  show "body_image_issues ps = Some []" "conflict_issues matter ps = []"
    "liquid_issues ps = Some []" "quality_issues ps = []"
    by (rule e)+
  show "\<exists>r. validateArticle matter ps = Some r
                 \<and> issues r = presence_issues ps @ tag_issues ps @ cover_issues ps"
    unfolding validateArticle_def by (simp add: e)
  show "validateArticle matter ps = validateArticle matter (ps\<lparr>body_markdown := None\<rparr>)"
    using b
    by (simp add: validateArticle_def body_image_issues_def conflict_issues_def liquid_issues_def
        quality_issues_def truthy_def presence_issues_def tag_issues_def cover_issues_def)
qed

text \<open>
  An empty title, an empty body and one bad tag: the presence error and the tag error.
\<close>

theorem validateArticle_empty_as_absent_witness:
  "validateArticle (\<lambda>b. Inr \<lparr>data = Mapping [], content = b\<rparr>)
       (no_params\<lparr>title := Some [], body_markdown := Some [], tags_param := Some (TagString ''Type-Script'')\<rparr>) =
     Some \<lparr>valid = False,
            issues = [\<lparr>severity = error, code = validation_failed,
                        message = ''Article must have a title or body_markdown.'',
                        line = None\<rparr>,
                      \<lparr>severity = error, code = validation_failed,
                        message = ''Invalid tag '' @ [DQ] @ ''type-script'' @ [DQ]
                          @ ''. Tags must be lowercase alphanumeric with underscores only.'',
                        line = None\<rparr>]\<rparr>"
proof -
  have "validateArticle (\<lambda>b. Inr \<lparr>data = Mapping [], content = b\<rparr>)
       (no_params\<lparr>title := Some [], body_markdown := Some [], tags_param := Some (TagString ''Type-Script'')\<rparr>) =
     Some \<lparr>valid = False,
            issues = [\<lparr>severity = error, code = validation_failed,
                        message = ''Article must have a title or body_markdown.'',
                        line = None\<rparr>,
                      \<lparr>severity = error, code = validation_failed,
                        message = ''Invalid tag '' @ [DQ] @ ''type-script'' @ [DQ]
                          @ ''. Tags must be lowercase alphanumeric with underscores only.'',
                        line = None\<rparr>]\<rparr>"
    by code_simp
  with validateArticle_empty_as_absent [of "no_params\<lparr>title := Some [], body_markdown := Some [], tags_param := Some (TagString ''Type-Script'')\<rparr>" "\<lambda>b. Inr \<lparr>data = Mapping [], content = b\<rparr>"]
  show ?thesis by simp
qed

section \<open>Further properties of the code\<close>

text \<open>
  A tag whose name \<open>Object.prototype\<close> defines: \<open>TAG_DEFS[name]\<close> is an inherited value
  with no \<open>convert\<close>, so \<open>stripLiquidTags\<close> and \<open>convertLiquidTag\<close> throw a \<open>TypeError\<close>, while
  \<open>detectLiquidTags\<close> reports the tag as any unknown one.
\<close>

theorem stripLiquidTags_throws_on_inherited_name:
  "TAG_DEFS_get ''constructor'' = Inherited
   \<and> stripLiquidTags ''{% constructor x %}'' = Inl (TypeError ''tagDef.convert is not a function'')
   \<and> convertLiquidTag
         \<lparr>tag = ''constructor'', argument = ''x'', fullMatch = ''{% constructor x %}'',
          lineNumber = 1, crossPostSafe = False, hasEndTag = False\<rparr> None
       = Inl (TypeError ''tagDef.convert is not a function'')
   \<and> detectLiquidTags ''{% constructor x %}'' =
       Some \<lparr>tags = [\<lparr>tag = ''constructor'', argument = ''x'',
                         fullMatch = ''{% constructor x %}'', lineNumber = 1,
                         crossPostSafe = False, hasEndTag = False\<rparr>],
              hasCrossPostUnsafe = True\<rparr>"
proof (intro conjI)
  show "TAG_DEFS_get ''constructor'' = Inherited"
    by (simp add: TAG_DEFS_get_def TAG_DEFS_def object_prototype_names_def)
qed code_simp+

text \<open>
  More than four tags after normalisation: the result is not valid and has an error
  whose message begins with \<open>Too many tags\<close>.
\<close>

lemma tag_issues_too_many:
  "truthy_tags (tags_param ps) = Some t \<Longrightarrow> 4 < length (normalizeTagList t) \<Longrightarrow>
   \<lparr>severity = error, code = validation_failed,
     message = ''Too many tags ('' @ show_nat (length (normalizeTagList t)) @ ''). Maximum is 4.'',
     line = None\<rparr> \<in> set (tag_issues ps)"
  by (simp add: tag_issues_def too_many_tags_def)

theorem validateArticle_too_many_tags:
  assumes "truthy_tags (tags_param ps) = Some t" and "4 < length (normalizeTagList t)"
  shows "\<exists>r. validateArticle matter ps = Some r \<and> \<not> valid r
             \<and> list_ex (\<lambda>issue. severity issue = error
                                 \<and> startsWith (message issue) ''Too many tags'') (issues r)"
proof -
  let ?i = "\<lparr>severity = error, code = validation_failed,
     message = ''Too many tags ('' @ show_nat (length (normalizeTagList t)) @ ''). Maximum is 4.'',
     line = None\<rparr>"
  have i: "?i \<in> set (tag_issues ps)" using assms by (rule tag_issues_too_many)
  from validateArticle_Some [of ps matter] obtain r where
    r: "validateArticle matter ps = Some r" "set (tag_issues ps) \<subseteq> set (issues r)"
       "valid r = (\<not> list_ex (\<lambda>issue. severity issue = error) (issues r))"
    by force
  from i r(2) have m: "?i \<in> set (issues r)" by blast
  have p: "severity ?i = error \<and> startsWith (message ?i) ''Too many tags''" by simp
  from m p have "list_ex (\<lambda>issue. severity issue = error
                                 \<and> startsWith (message issue) ''Too many tags'') (issues r)"
    unfolding list_ex_iff by blast
  moreover from m p have "list_ex (\<lambda>issue. severity issue = error) (issues r)"
    unfolding list_ex_iff by force
  ultimately show ?thesis using r(1,3) by blast
qed

text \<open>
  Five tags in a comma-separated string.
\<close>

theorem validateArticle_too_many_tags_witness:
  "truthy_tags (Some (TagString ''one, two, three, four, five'')) = Some (TagString ''one, two, three, four, five'')
   \<and> normalizeTagList (TagString ''one, two, three, four, five'') = [''one'', ''two'', ''three'', ''four'', ''five'']
   \<and> validateArticle (\<lambda>b. Inr \<lparr>data = Mapping [], content = b\<rparr>)
        (no_params\<lparr>title := Some ''Test'', tags_param := Some (TagString ''one, two, three, four, five'')\<rparr>) =
      Some \<lparr>valid = False,
             issues = [\<lparr>severity = error, code = validation_failed,
                         message = ''Too many tags (5). Maximum is 4.'', line = None\<rparr>]\<rparr>"
proof -
  have a: "truthy_tags (tags_param (no_params\<lparr>title := Some ''Test'', tags_param := Some (TagString ''one, two, three, four, five'')\<rparr>)) = Some (TagString ''one, two, three, four, five'')"
    by (simp add: truthy_tags_def no_params_def)
  have n: "normalizeTagList (TagString ''one, two, three, four, five'') = [''one'', ''two'', ''three'', ''four'', ''five'']"
    by code_simp
  have b: "4 < length (normalizeTagList (TagString ''one, two, three, four, five''))"
    by (simp add: n)
  have v: "validateArticle (\<lambda>b. Inr \<lparr>data = Mapping [], content = b\<rparr>)
        (no_params\<lparr>title := Some ''Test'', tags_param := Some (TagString ''one, two, three, four, five'')\<rparr>) =
      Some \<lparr>valid = False,
             issues = [\<lparr>severity = error, code = validation_failed,
                         message = ''Too many tags (5). Maximum is 4.'', line = None\<rparr>]\<rparr>"
    by code_simp
  have t: "truthy_tags (Some (TagString ''one, two, three, four, five'')) = Some (TagString ''one, two, three, four, five'')"
    by (simp add: truthy_tags_def)
  from validateArticle_too_many_tags [OF a b, of "\<lambda>b. Inr \<lparr>data = Mapping [], content = b\<rparr>"] t n v
  show ?thesis by blast
qed

text \<open>
  Examples of the specification for \<open>mergeAndNormalize\<close>, the library's answers being
  those of the repository's tests: a list of tags becomes one comma-and-space-joined
  string; \<open>cover_image\<close> in the front matter conflicts with an explicit \<open>main_image\<close>, which
  wins; without a body the explicit parameters are returned as they are.
\<close>

theorem mergeAndNormalize_examples:
  "mergeAndNormalize
      (\<lambda>d. Inr \<lparr>data = Mapping [(''tags'', JArr [JStr ''javascript'', JStr ''typescript''])],
                  content = ''Content''\<rparr>) (Some tags_doc) []
     = Inr \<lparr>body = ''Content'', params = [(''tags'', JStr ''javascript, typescript'')],
            conflicts = []\<rparr>
   \<and> mergeAndNormalize
        (\<lambda>d. Inr \<lparr>data = Mapping [(''cover_image'', JStr ''https://x/old.jpg'')],
                    content = ''C''\<rparr>)
        (Some (''---'' @ [NL] @ ''cover_image: https://x/old.jpg'' @ [NL] @ ''---'' @ [NL] @ ''C''))
        [(''main_image'', JStr ''https://x/new.jpg'')]
     = Inr \<lparr>body = ''C'', params = [(''main_image'', JStr ''https://x/new.jpg'')],
            conflicts = [\<lparr>field = ''main_image'', frontMatterValue = JStr ''https://x/old.jpg'',
                          jsonValue = JStr ''https://x/new.jpg''\<rparr>]\<rparr>
   \<and> mergeAndNormalize (\<lambda>d. Inr \<lparr>data = Mapping [], content = d\<rparr>) None
        [(''title'', JStr ''Test'')]
     = Inr \<lparr>body = [], params = [(''title'', JStr ''Test'')], conflicts = []\<rparr>"
  by code_simp

text \<open>
  Examples of the specification for the converter: a \<open>youtube\<close> tag becomes the watch URL,
  a \<open>details\<close> block becomes the HTML element, and the empty document stays empty.
\<close>

theorem liquid_tag_examples:
  "convertLiquidTag
      \<lparr>tag = ''youtube'', argument = ''abc123'', fullMatch = ''{% youtube abc123 %}'',
       lineNumber = 1, crossPostSafe = False, hasEndTag = False\<rparr> None
     = Inr ''https://www.youtube.com/watch?v=abc123''
   \<and> stripLiquidTags ''Check this video: {% youtube abc123 %}''
     = Inr ''Check this video: https://www.youtube.com/watch?v=abc123''
   \<and> stripLiquidTags (''{% details Summary %}'' @ [NL] @ ''Body'' @ [NL] @ ''{% enddetails %}'')
     = Inr (''<details>'' @ [NL] @ ''<summary>Summary</summary>'' @ [NL, NL] @ ''Body'' @ [NL]
            @ ''</details>'')
   \<and> stripLiquidTags [] = Inr []"
  by code_simp

text \<open>
  Where \<open>parseFrontMatter\<close> does give the result for no front matter: on a blank document,
  when the library throws, and when the data the library returns has no key.  In the last
  case the clean body is the content the library returns.
\<close>

lemma parseFrontMatter_blank:
  "list_all isWhiteSpace doc \<Longrightarrow>
   parseFrontMatter matter doc
     = \<lparr>cleanBody = doc, extractedValues = Mapping [], hasFrontMatter = False\<rparr>"
  using blank_iff [of doc] by (simp add: parseFrontMatter_def)

lemma parseFrontMatter_catches:
  "matter doc = Inl e \<Longrightarrow>
   parseFrontMatter matter doc
     = \<lparr>cleanBody = doc, extractedValues = Mapping [], hasFrontMatter = False\<rparr>"
  by (simp add: parseFrontMatter_def)

lemma parseFrontMatter_no_keys:
  "matter doc = Inr parsed \<Longrightarrow> key_count (data parsed) = 0 \<Longrightarrow>
   \<not> hasFrontMatter (parseFrontMatter matter doc)"
  by (simp add: parseFrontMatter_def)

text \<open>
  The last two steps of \<open>isSubstantialContent\<close> in other words: the sixth replacement
  deletes the characters \<open># * _ ~ > -\<close>, and the words counted are the pieces between white
  space that are not empty.  A blank document is not substantial.
\<close>

lemma isSubstantialContent_words:
  "(list_all isWhiteSpace markdown \<longrightarrow> \<not> isSubstantialContent markdown)
   \<and> (\<not> list_all isWhiteSpace markdown \<longrightarrow>
        (isSubstantialContent markdown \<longleftrightarrow>
           10 \<le> length (ws_tokens (filter (\<lambda>c. c \<notin> set ''#*_~>-'')
                   (strip_html (strip_links (strip_images (strip_inline_code
                     (strip_code_blocks markdown)))))))))"
  using blank_iff [of markdown]
  by (simp add: isSubstantialContent_def content_words_tokens stripped_text_def
        strip_formatting_filter del: set_simps)

end
